theory Spec2Isabelle
  imports Complex_Main "HOL-Library.Word"
begin

section \<open>The driver of the evacuation simulator (src/src/main.c)\<close>

text \<open>
  The sources hold the driver \<^verbatim>\<open>main.c\<close> and the header \<^verbatim>\<open>exit.h\<close>. The driver
  owns the order in which everything else is called: the loop over simulation sets in
  \<^verbatim>\<open>main\<close>, the loop over simulation runs and the loop over timesteps in
  \<^verbatim>\<open>run_simulations\<close>, and \<^verbatim>\<open>conflict_solving\<close>. The functions it calls
  (pedestrian, exit, grid, printing modules) are not among the sources; each is a
  parameter of the model, a function on the part of the memory the driver never reads
  itself (the type variable \<open>'w\<close>).
\<close>

subsection \<open>Data\<close>

text \<open>\<^verbatim>\<open>Function_Status\<close>: the three values the driver tests.\<close>

datatype Function_Status = FAILURE | SUCCESS | INACCESSIBLE_EXIT

text \<open>
  \<^verbatim>\<open>cli_args.output_format\<close>: the driver names three formats; \<open>OUTPUT_UNNAMED\<close>
  stands for any further enumerator of the absent header.
\<close>

datatype Output_Format =
  OUTPUT_VISUALIZATION | OUTPUT_TIMESTEPS_COUNT | OUTPUT_HEATMAP | OUTPUT_UNNAMED

text \<open>
  The fields of the global \<^verbatim>\<open>cli_args\<close> that the driver reads. Only \<open>seed\<close> is
  written by the driver (\<^verbatim>\<open>cli_args.seed++\<close>). It is a C \<^verbatim>\<open>int\<close>, 32 bits in two's
  complement, handed to \<^verbatim>\<open>srand(unsigned)\<close> with the same bit pattern; the increment
  wraps around. The loop bounds are compared as mathematical integers: a counter
  that runs from 0 up to a bound of type \<^verbatim>\<open>int\<close> never leaves the range of \<^verbatim>\<open>int\<close>.
\<close>

record Command_Line_Args =
  output_format :: Output_Format
  write_to_file :: bool
  show_debug_information :: bool
  show_simulation_set_info :: bool
  allow_X_movement :: bool
  single_exit_flag :: bool
  global_line_number :: int
  global_column_number :: int
  num_simulations :: int
  total_num_pedestrians :: int
  seed :: "32 word"

text \<open>
  \<^verbatim>\<open>x++\<close> on a C \<^verbatim>\<open>int\<close> (32 bits, two's complement): one more, and from \<^verbatim>\<open>INT_MAX\<close> the
  value with the bit pattern of \<^verbatim>\<open>INT_MIN\<close>. Nothing bounds \<^verbatim>\<open>simulation_set_index\<close> of
  \<^verbatim>\<open>main\<close> or \<^verbatim>\<open>number_timesteps\<close> of \<^verbatim>\<open>run_simulations\<close>; both are incremented this way.
\<close>

definition int_increment :: "int \<Rightarrow> int" where
  "int_increment x = (if x = 2147483647 then - 2147483648 else x + 1)"

text \<open>The global grids the driver hands to the grid module by name.\<close>

datatype Grid_Name = environment_only_grid | pedestrian_position_grid | heatmap_grid

text \<open>A \<^verbatim>\<open>FILE *\<close> of \<^verbatim>\<open>main\<close>: null, the standard output, or an opened file.\<close>

datatype Stream = NULL_STREAM | STDOUT | OPENED_FILE

text \<open>
  What the driver does that can be seen from outside, in program order: every call of
  a function it does not define, with the arguments it passes and the status it gets
  back, and every line it prints itself.
\<close>

datatype event =
    Ev_get_next_simulation_set Function_Status int
  | Ev_print_simulation_set_information
  | Ev_calculate_final_floor_field Function_Status
  | Ev_fprintf_inaccessible
  | Ev_print_placeholder int
  | Ev_deallocate_exits
  | Ev_print_execution_status int int
  | Ev_run_simulations
  | Ev_fprintf_newline
  | Ev_print_heatmap
  | Ev_reset_integer_grid Grid_Name
  | Ev_fprintf_hash1
  | Ev_srand "32 word"
  | Ev_print_double_grid
  | Ev_insert_pedestrians_at_random int Function_Status
  | Ev_print_pedestrian_position_grid int int
  | Ev_printf_timestep int
  | Ev_evaluate_pedestrians_movements
  | Ev_determine_pedestrians_in_panic
  | Ev_block_X_movement
  | Ev_identify_pedestrian_conflicts Function_Status
  | Ev_solve_pedestrian_conflicts Function_Status
  | Ev_print_pedestrian_conflict_information
  | Ev_free_pedestrian_conflicts
  | Ev_apply_pedestrian_movement
  | Ev_update_pedestrian_position_grid
  | Ev_reset_pedestrian_state
  | Ev_reset_pedestrian_panic
  | Ev_sleep
  | Ev_reset_pedestrians_structures
  | Ev_deallocate_pedestrians
  | Ev_fprintf_timesteps int
  | Ev_fclose_auxiliary_file
  | Ev_fclose_output_file
  | Ev_deallocate_grid Grid_Name

text \<open>
  The functions the driver calls and does not define. The three \<^verbatim>\<open>origin_uses_...\<close>
  predicates read \<^verbatim>\<open>cli_args.environment_origin\<close>, which the driver never writes:
  each is a constant of one process. \<open>exits_set_num_exits\<close> reads the global
  \<^verbatim>\<open>exits_set.num_exits\<close> of \<^verbatim>\<open>exit.h\<close>. \<open>srand\<close> is the C library's.
\<close>

record 'w External =
  origin_uses_auxiliary_data :: bool
  origin_uses_static_exits :: bool
  origin_uses_static_pedestrians :: bool
  get_next_simulation_set :: "'w \<Rightarrow> Function_Status \<times> int \<times> 'w"
  calculate_final_floor_field :: "'w \<Rightarrow> Function_Status \<times> 'w"
  deallocate_exits :: "'w \<Rightarrow> 'w"
  reset_integer_grid :: "Grid_Name \<Rightarrow> int \<Rightarrow> int \<Rightarrow> 'w \<Rightarrow> 'w"
  exits_set_num_exits :: "'w \<Rightarrow> int"
  srand :: "32 word \<Rightarrow> 'w \<Rightarrow> 'w"
  insert_pedestrians_at_random :: "int \<Rightarrow> 'w \<Rightarrow> Function_Status \<times> 'w"
  is_environment_empty :: "'w \<Rightarrow> bool"
  evaluate_pedestrians_movements :: "'w \<Rightarrow> 'w"
  determine_pedestrians_in_panic :: "'w \<Rightarrow> 'w"
  block_X_movement :: "'w \<Rightarrow> 'w"
  identify_pedestrian_conflicts :: "'w \<Rightarrow> Function_Status \<times> 'w"
  solve_pedestrian_conflicts :: "'w \<Rightarrow> Function_Status \<times> 'w"
  apply_pedestrian_movement :: "'w \<Rightarrow> 'w"
  update_pedestrian_position_grid :: "'w \<Rightarrow> 'w"
  reset_pedestrian_state :: "'w \<Rightarrow> 'w"
  reset_pedestrian_panic :: "'w \<Rightarrow> 'w"
  reset_pedestrians_structures :: "'w \<Rightarrow> 'w"
  deallocate_pedestrians :: "'w \<Rightarrow> 'w"
  deallocate_grid :: "Grid_Name \<Rightarrow> int \<Rightarrow> 'w \<Rightarrow> 'w"

text \<open>
  The state the driver works on: the memory of the other modules, \<^verbatim>\<open>cli_args\<close>,
  the locals of \<^verbatim>\<open>main\<close> that live across passes of its loop, and the events so far
  (oldest first).
\<close>

record 'w state =
  world :: 'w
  cli_args :: Command_Line_Args
  auxiliary_file :: Stream
  output_file :: Stream
  simulation_set_quantity :: int
  simulation_set_index :: int
  current_exit_number :: int
  trace :: "event list"

subsection \<open>Calls and prints\<close>

definition emit :: "event \<Rightarrow> 'w state \<Rightarrow> 'w state" where
  "emit ev s = s\<lparr>trace := trace s @ [ev]\<rparr>"

definition call :: "('w \<Rightarrow> 'w) \<Rightarrow> event \<Rightarrow> 'w state \<Rightarrow> 'w state" where
  "call f ev s = s\<lparr>world := f (world s), trace := trace s @ [ev]\<rparr>"

definition call_status ::
  "('w \<Rightarrow> Function_Status \<times> 'w) \<Rightarrow> (Function_Status \<Rightarrow> event) \<Rightarrow> 'w state
     \<Rightarrow> Function_Status \<times> 'w state" where
  "call_status f ev s =
     (fst (f (world s)),
      s\<lparr>world := snd (f (world s)), trace := trace s @ [ev (fst (f (world s)))]\<rparr>)"

subsection \<open>\<^verbatim>\<open>conflict_solving\<close> (main.c, lines 207 to 224)\<close>

definition conflict_solving :: "'w External \<Rightarrow> 'w state \<Rightarrow> Function_Status \<times> 'w state" where
  "conflict_solving ext s =
     (case call_status (identify_pedestrian_conflicts ext) Ev_identify_pedestrian_conflicts s of
        (st1, s1) \<Rightarrow>
          if st1 = FAILURE then (FAILURE, s1)
          else
            (case call_status (solve_pedestrian_conflicts ext) Ev_solve_pedestrian_conflicts s1 of
               (st2, s2) \<Rightarrow>
                 if st2 = FAILURE then (FAILURE, s2)
                 else
                   (SUCCESS,
                    emit Ev_free_pedestrian_conflicts
                      (if show_debug_information (cli_args s2)
                       then emit Ev_print_pedestrian_conflict_information s2
                       else s2))))"

subsection \<open>One timestep: the body of the \<^verbatim>\<open>while\<close> of \<^verbatim>\<open>run_simulations\<close> (lines 160 to 189)\<close>

text \<open>The calls before \<^verbatim>\<open>conflict_solving\<close> (lines 161 to 168).\<close>

definition timestep_proposals :: "'w External \<Rightarrow> int \<Rightarrow> 'w state \<Rightarrow> 'w state" where
  "timestep_proposals ext number_timesteps s =
     (let s1 = (if show_debug_information (cli_args s)
                then emit (Ev_printf_timestep (int_increment number_timesteps)) s else s);
          s2 = call (evaluate_pedestrians_movements ext) Ev_evaluate_pedestrians_movements s1;
          s3 = call (determine_pedestrians_in_panic ext) Ev_determine_pedestrians_in_panic s2
      in if \<not> allow_X_movement (cli_args s3)
         then call (block_X_movement ext) Ev_block_X_movement s3
         else s3)"

text \<open>The calls after a successful \<^verbatim>\<open>conflict_solving\<close> (lines 173 to 187).\<close>

definition timestep_commit :: "'w External \<Rightarrow> int \<Rightarrow> int \<Rightarrow> 'w state \<Rightarrow> 'w state" where
  "timestep_commit ext simu_index number_timesteps s =
     (let s1 = call (apply_pedestrian_movement ext) Ev_apply_pedestrian_movement s;
          s2 = call (update_pedestrian_position_grid ext) Ev_update_pedestrian_position_grid s1;
          s3 = call (reset_pedestrian_state ext) Ev_reset_pedestrian_state s2;
          s4 = call (reset_pedestrian_panic ext) Ev_reset_pedestrian_panic s3
      in if output_format (cli_args s4) = OUTPUT_VISUALIZATION
         then emit (Ev_print_pedestrian_position_grid simu_index (int_increment number_timesteps))
                (if \<not> write_to_file (cli_args s4) then emit Ev_sleep s4 else s4)
         else s4)"

definition timestep ::
  "'w External \<Rightarrow> int \<Rightarrow> int \<Rightarrow> 'w state \<Rightarrow> Function_Status \<times> 'w state" where
  "timestep ext simu_index number_timesteps s =
     (case conflict_solving ext (timestep_proposals ext number_timesteps s) of
        (st, s1) \<Rightarrow>
          if st = FAILURE then (FAILURE, s1)
          else (SUCCESS, timestep_commit ext simu_index number_timesteps s1))"

text \<open>
  The \<^verbatim>\<open>while(is_environment_empty() == false)\<close> loop. Nothing bounds the number of
  timesteps, so a run that never empties the environment has no result (\<open>None\<close>).
  The result is the status (\<open>FAILURE\<close> when \<^verbatim>\<open>conflict_solving\<close> failed and
  \<^verbatim>\<open>run_simulations\<close> returns at once), the value of \<^verbatim>\<open>number_timesteps\<close> and the
  state.
\<close>

partial_function (option) simulation_loop ::
  "'w External \<Rightarrow> int \<Rightarrow> int \<Rightarrow> 'w state \<Rightarrow> (Function_Status \<times> int \<times> 'w state) option" where
  "simulation_loop ext simu_index number_timesteps s =
     (if is_environment_empty ext (world s) then Some (SUCCESS, number_timesteps, s)
      else
        (case timestep ext simu_index number_timesteps s of
           (st, s1) \<Rightarrow>
             if st = FAILURE then Some (FAILURE, number_timesteps, s1)
             else simulation_loop ext simu_index (int_increment number_timesteps) s1))"

subsection \<open>One simulation run: the body of the \<^verbatim>\<open>for\<close> of \<^verbatim>\<open>run_simulations\<close> (lines 144 to 197)\<close>

text \<open>Seeding and placing the pedestrians (lines 144 to 156).\<close>

definition run_start :: "'w External \<Rightarrow> int \<Rightarrow> 'w state \<Rightarrow> Function_Status \<times> 'w state" where
  "run_start ext simu_index s =
     (let s1 = call (srand ext (seed (cli_args s))) (Ev_srand (seed (cli_args s))) s;
          s2 = (if show_debug_information (cli_args s1) then emit Ev_print_double_grid s1 else s1)
      in case (if \<not> origin_uses_static_pedestrians ext
               then call_status (insert_pedestrians_at_random ext (total_num_pedestrians (cli_args s2)))
                      (Ev_insert_pedestrians_at_random (total_num_pedestrians (cli_args s2))) s2
               else (SUCCESS, s2)) of
           (st, s3) \<Rightarrow>
             if st = FAILURE then (FAILURE, s3)
             else (SUCCESS,
                   if output_format (cli_args s3) = OUTPUT_VISUALIZATION
                   then emit (Ev_print_pedestrian_position_grid simu_index 0) s3
                   else s3))"

text \<open>After the environment has emptied (lines 191 to 197).\<close>

definition run_finish :: "'w External \<Rightarrow> int \<Rightarrow> 'w state \<Rightarrow> 'w state" where
  "run_finish ext number_timesteps s =
     (let s1 = (if origin_uses_static_pedestrians ext
                then call (reset_pedestrians_structures ext) Ev_reset_pedestrians_structures s
                else call (deallocate_pedestrians ext) Ev_deallocate_pedestrians s)
      in if output_format (cli_args s1) = OUTPUT_TIMESTEPS_COUNT
         then emit (Ev_fprintf_timesteps number_timesteps) s1
         else s1)"

definition simulation_run ::
  "'w External \<Rightarrow> int \<Rightarrow> 'w state \<Rightarrow> (Function_Status \<times> 'w state) option" where
  "simulation_run ext simu_index s =
     (case run_start ext simu_index s of
        (st, s1) \<Rightarrow>
          if st = FAILURE then Some (FAILURE, s1)
          else
            (case simulation_loop ext simu_index 0 s1 of
               None \<Rightarrow> None
             | Some (st2, number_timesteps, s2) \<Rightarrow>
                 if st2 = FAILURE then Some (FAILURE, s2)
                 else Some (SUCCESS, run_finish ext number_timesteps s2)))"

subsection \<open>\<^verbatim>\<open>run_simulations\<close> (main.c, lines 135 to 201)\<close>

definition increment_seed :: "'w state \<Rightarrow> 'w state" where
  "increment_seed s = s\<lparr>cli_args := (cli_args s)\<lparr>seed := seed (cli_args s) + 1\<rparr>\<rparr>"

partial_function (option) run_loop ::
  "'w External \<Rightarrow> int \<Rightarrow> 'w state \<Rightarrow> (Function_Status \<times> 'w state) option" where
  "run_loop ext simu_index s =
     (if simu_index < num_simulations (cli_args s)
      then
        (case simulation_run ext simu_index s of
           None \<Rightarrow> None
         | Some (st, s1) \<Rightarrow>
             if st = FAILURE then Some (FAILURE, s1)
             else run_loop ext (simu_index + 1) (increment_seed s1))
      else Some (SUCCESS, s))"

text \<open>
  Before the loop (lines 137 to 140); \<open>Ev_run_simulations\<close> marks the entry of the
  function.
\<close>

definition enter_run_simulations :: "'w External \<Rightarrow> 'w state \<Rightarrow> 'w state" where
  "enter_run_simulations ext s =
     (let s0 = emit Ev_run_simulations s
      in if single_exit_flag (cli_args s0)
            \<and> output_format (cli_args s0) = OUTPUT_TIMESTEPS_COUNT
            \<and> exits_set_num_exits ext (world s0) = 1
         then emit Ev_fprintf_hash1 s0
         else s0)"

definition run_simulations :: "'w External \<Rightarrow> 'w state \<Rightarrow> (Function_Status \<times> 'w state) option" where
  "run_simulations ext s = run_loop ext 0 (enter_run_simulations ext s)"

subsection \<open>\<^verbatim>\<open>deallocate_program_structures\<close> (main.c, lines 232 to 246)\<close>

definition deallocate_program_structures :: "'w External \<Rightarrow> 'w state \<Rightarrow> 'w state" where
  "deallocate_program_structures ext s =
     (let s1 = (if auxiliary_file s \<noteq> NULL_STREAM then emit Ev_fclose_auxiliary_file s else s);
          s2 = (if output_file s1 \<noteq> NULL_STREAM \<and> output_file s1 \<noteq> STDOUT
                then emit Ev_fclose_output_file s1 else s1);
          s3 = call (deallocate_pedestrians ext) Ev_deallocate_pedestrians s2;
          s4 = call (deallocate_exits ext) Ev_deallocate_exits s3;
          s5 = call (deallocate_grid ext environment_only_grid (global_line_number (cli_args s4)))
                 (Ev_deallocate_grid environment_only_grid) s4;
          s6 = call (deallocate_grid ext pedestrian_position_grid (global_line_number (cli_args s5)))
                 (Ev_deallocate_grid pedestrian_position_grid) s5
      in call (deallocate_grid ext heatmap_grid (global_line_number (cli_args s6)))
           (Ev_deallocate_grid heatmap_grid) s6)"

subsection \<open>The loop over simulation sets: the \<^verbatim>\<open>do ... while(true)\<close> of \<^verbatim>\<open>main\<close> (lines 66 to 122)\<close>

text \<open>
  The part of \<^verbatim>\<open>main\<close> before the loop parses the arguments, opens the files and loads
  the environment; it fills the initial state. How one pass of the loop body ends:
  \<^verbatim>\<open>return END_PROGRAM\<close>, \<^verbatim>\<open>break\<close>, or the next pass (\<^verbatim>\<open>continue\<close> or the end of the
  body).
\<close>

datatype 'w pass = Return "'w state" | Break "'w state" | Continue "'w state"

fun pass_state :: "'w pass \<Rightarrow> 'w state" where
  "pass_state (Return s) = s"
| "pass_state (Break s) = s"
| "pass_state (Continue s) = s"

text \<open>Fetching the next simulation set (lines 68 to 75).\<close>

definition fetch_set :: "'w External \<Rightarrow> 'w state \<Rightarrow> 'w pass" where
  "fetch_set ext s =
     (if origin_uses_auxiliary_data ext
      then
        (case get_next_simulation_set ext (world s) of
           (st, n, w1) \<Rightarrow>
             (let s1 = s\<lparr>world := w1, current_exit_number := n,
                          trace := trace s @ [Ev_get_next_simulation_set st n]\<rparr>
              in if st = FAILURE then Return s1
                 else if current_exit_number s1 = 0 then Break s1
                 else Continue s1))
      else Continue s)"

text \<open>The branch taken on \<^verbatim>\<open>INACCESSIBLE_EXIT\<close> (lines 85 to 96).\<close>

definition skip_set :: "'w External \<Rightarrow> 'w state \<Rightarrow> 'w state" where
  "skip_set ext s =
     (let s1 = (if output_format (cli_args s) \<noteq> OUTPUT_TIMESTEPS_COUNT
                then emit Ev_fprintf_inaccessible s
                else emit (Ev_print_placeholder (- 1)) s);
          s2 = (if origin_uses_auxiliary_data ext
                then call (deallocate_exits ext) Ev_deallocate_exits s1 else s1);
          s3 = emit (Ev_print_execution_status (simulation_set_index s2) (simulation_set_quantity s2)) s2
      in s3\<lparr>simulation_set_index := int_increment (simulation_set_index s3)\<rparr>)"

text \<open>After \<^verbatim>\<open>run_simulations\<close> has returned \<^verbatim>\<open>SUCCESS\<close> (lines 103 to 117).\<close>

definition finish_set :: "'w External \<Rightarrow> 'w state \<Rightarrow> 'w state" where
  "finish_set ext s =
     (let s1 = (if origin_uses_auxiliary_data ext
                then call (deallocate_exits ext) Ev_deallocate_exits s else s);
          s2 = (if output_format (cli_args s1) = OUTPUT_TIMESTEPS_COUNT
                then emit Ev_fprintf_newline s1 else s1);
          s3 = (if output_format (cli_args s2) = OUTPUT_HEATMAP
                then call (reset_integer_grid ext heatmap_grid
                             (global_line_number (cli_args s2)) (global_column_number (cli_args s2)))
                       (Ev_reset_integer_grid heatmap_grid)
                       (emit Ev_print_heatmap s2)
                else s2);
          s4 = emit (Ev_print_execution_status (simulation_set_index s3) (simulation_set_quantity s3)) s3
      in s4\<lparr>simulation_set_index := int_increment (simulation_set_index s4)\<rparr>)"

text \<open>Printing the set and combining the floor fields (lines 77 to 80).\<close>

definition compute_field :: "'w External \<Rightarrow> 'w state \<Rightarrow> Function_Status \<times> 'w state" where
  "compute_field ext s =
     call_status (calculate_final_floor_field ext) Ev_calculate_final_floor_field
       (if show_simulation_set_info (cli_args s)
        then emit Ev_print_simulation_set_information s else s)"

definition main_iteration :: "'w External \<Rightarrow> 'w state \<Rightarrow> 'w pass option" where
  "main_iteration ext s =
     (case fetch_set ext s of
        Return s1 \<Rightarrow> Some (Return s1)
      | Break s1 \<Rightarrow> Some (Break s1)
      | Continue s1 \<Rightarrow>
          (case compute_field ext s1 of
             (returned_value, s2) \<Rightarrow>
               if returned_value = FAILURE then Some (Return s2)
               else if returned_value = INACCESSIBLE_EXIT then Some (Continue (skip_set ext s2))
               else
                 (case run_simulations ext s2 of
                    None \<Rightarrow> None
                  | Some (st, s3) \<Rightarrow>
                      if st = FAILURE then Some (Return s3)
                      else if origin_uses_static_exits ext then Some (Break (finish_set ext s3))
                      else Some (Continue (finish_set ext s3)))))"

text \<open>
  The loop, and what \<^verbatim>\<open>main\<close> does after it. The result is the final state; every
  path returns \<^verbatim>\<open>END_PROGRAM\<close>. A loop that never ends has no result (\<open>None\<close>).
\<close>

partial_function (option) main_loop :: "'w External \<Rightarrow> 'w state \<Rightarrow> 'w state option" where
  "main_loop ext s =
     (case main_iteration ext s of
        None \<Rightarrow> None
      | Some (Return s1) \<Rightarrow> Some s1
      | Some (Break s1) \<Rightarrow> Some (deallocate_program_structures ext s1)
      | Some (Continue s1) \<Rightarrow> main_loop ext s1)"

subsection \<open>A small instance of the absent modules\<close>

text \<open>
  To run the driver on concrete inputs, the absent modules are instantiated with a world
  that only counts: the pedestrians in the environment, the exits allocated, the
  simulation sets left in the auxiliary file (number of exits, and whether every region
  reaches one), the sum of the heatmap and the seed of the pseudo-random stream. One
  pedestrian leaves per timestep.
\<close>

record counting_world =
  in_room :: nat
  open_exits :: nat
  accessible :: bool
  aux_sets :: "(nat \<times> bool) list"
  heat :: nat
  stream :: "32 word"

definition counting_ext :: "counting_world External" where
  "counting_ext =
     \<lparr> origin_uses_auxiliary_data = True,
       origin_uses_static_exits = False,
       origin_uses_static_pedestrians = False,
       get_next_simulation_set =
         (\<lambda>w. case aux_sets w of
                 [] \<Rightarrow> (SUCCESS, 0, w)
               | (n, a) # r \<Rightarrow>
                   (SUCCESS, int n, w\<lparr>open_exits := n, accessible := a, aux_sets := r\<rparr>)),
       calculate_final_floor_field =
         (\<lambda>w. (if accessible w then SUCCESS else INACCESSIBLE_EXIT, w)),
       deallocate_exits = (\<lambda>w. w\<lparr>open_exits := 0\<rparr>),
       reset_integer_grid = (\<lambda>g l c w. if g = heatmap_grid then w\<lparr>heat := 0\<rparr> else w),
       exits_set_num_exits = (\<lambda>w. int (open_exits w)),
       srand = (\<lambda>sd w. w\<lparr>stream := sd\<rparr>),
       insert_pedestrians_at_random = (\<lambda>n w. (SUCCESS, w\<lparr>in_room := nat n\<rparr>)),
       is_environment_empty = (\<lambda>w. in_room w = 0),
       evaluate_pedestrians_movements = (\<lambda>w. w),
       determine_pedestrians_in_panic = (\<lambda>w. w),
       block_X_movement = (\<lambda>w. w),
       identify_pedestrian_conflicts = (\<lambda>w. (SUCCESS, w)),
       solve_pedestrian_conflicts = (\<lambda>w. (SUCCESS, w)),
       apply_pedestrian_movement = (\<lambda>w. w\<lparr>in_room := in_room w - 1\<rparr>),
       update_pedestrian_position_grid = (\<lambda>w. w\<lparr>heat := heat w + in_room w\<rparr>),
       reset_pedestrian_state = (\<lambda>w. w),
       reset_pedestrian_panic = (\<lambda>w. w),
       reset_pedestrians_structures = (\<lambda>w. w),
       deallocate_pedestrians = (\<lambda>w. w\<lparr>in_room := 0\<rparr>),
       deallocate_grid = (\<lambda>g n w. w) \<rparr>"

definition counting_args :: Command_Line_Args where
  "counting_args =
     \<lparr> output_format = OUTPUT_TIMESTEPS_COUNT, write_to_file = False,
       show_debug_information = False, show_simulation_set_info = False,
       allow_X_movement = False, single_exit_flag = False,
       global_line_number = 3, global_column_number = 3,
       num_simulations = 2, total_num_pedestrians = 2, seed = 7 \<rparr>"

text \<open>The state on entry to the loop of \<^verbatim>\<open>main\<close>: two simulation sets to come.\<close>

definition counting_start :: "counting_world state" where
  "counting_start =
     \<lparr> world = \<lparr> in_room = 0, open_exits = 0, accessible = True,
                 aux_sets = [(1, True), (2, True)], heat = 0, stream = 0 \<rparr>,
       cli_args = counting_args,
       auxiliary_file = OPENED_FILE, output_file = STDOUT,
       simulation_set_quantity = 2, simulation_set_index = 0,
       current_exit_number = 0, trace = [] \<rparr>"

text \<open>A state inside a run: one exit, two pedestrians in the environment.\<close>

definition counting_busy :: "counting_world state" where
  "counting_busy =
     \<lparr> world = \<lparr> in_room = 2, open_exits = 1, accessible = True,
                 aux_sets = [], heat = 0, stream = 7 \<rparr>,
       cli_args = counting_args,
       auxiliary_file = OPENED_FILE, output_file = STDOUT,
       simulation_set_quantity = 1, simulation_set_index = 0,
       current_exit_number = 1, trace = [] \<rparr>"

text \<open>
  The same modules with a conflict resolver that runs out of memory once a single
  pedestrian is left.
\<close>

definition exhausted_ext :: "counting_world External" where
  "exhausted_ext =
     counting_ext\<lparr>solve_pedestrian_conflicts :=
       (\<lambda>w. (if in_room w \<le> 1 then FAILURE else SUCCESS, w))\<rparr>"

text \<open>One run of one pedestrian, with the heatmap as output.\<close>

definition heatmap_start :: "counting_world state" where
  "heatmap_start =
     counting_start\<lparr>cli_args :=
       counting_args\<lparr>output_format := OUTPUT_HEATMAP, num_simulations := 1,
         total_num_pedestrians := 1\<rparr>\<rparr>"

text \<open>An auxiliary file whose first simulation set has a region that reaches no exit.\<close>

definition sealed_start :: "counting_world state" where
  "sealed_start =
     counting_start\<lparr>world := (world counting_start)\<lparr>aux_sets := [(1, False), (2, True)]\<rparr>\<rparr>"

text \<open>
  An origin with static exits: no auxiliary file, one simulation set, its exit allocated
  when the environment was loaded; here with a region that reaches no exit.
\<close>

definition static_ext :: "counting_world External" where
  "static_ext =
     counting_ext\<lparr>origin_uses_auxiliary_data := False, origin_uses_static_exits := True\<rparr>"

definition sealed_static :: "counting_world state" where
  "sealed_static =
     \<lparr> world = \<lparr> in_room = 0, open_exits = 1, accessible = False,
                 aux_sets = [], heat = 0, stream = 0 \<rparr>,
       cli_args = counting_args,
       auxiliary_file = NULL_STREAM, output_file = STDOUT,
       simulation_set_quantity = 1, simulation_set_index = 0,
       current_exit_number = 0, trace = [] \<rparr>"

subsection \<open>Reading traces and executions\<close>

text \<open>The seeds handed to \<^verbatim>\<open>srand\<close>, in order.\<close>

fun srand_seeds :: "event list \<Rightarrow> 32 word list" where
  "srand_seeds [] = []"
| "srand_seeds (e # es) =
     (case e of Ev_srand sd \<Rightarrow> sd # srand_seeds es | _ \<Rightarrow> srand_seeds es)"

definition seeding :: "event \<Rightarrow> bool" where
  "seeding e = (case e of Ev_srand sd \<Rightarrow> True | _ \<Rightarrow> False)"

definition resetting :: "event \<Rightarrow> bool" where
  "resetting e = (case e of Ev_reset_integer_grid g \<Rightarrow> True | _ \<Rightarrow> False)"

text \<open>Events that neither reset a grid nor enter \<^verbatim>\<open>run_simulations\<close>.\<close>

definition plain :: "event list \<Rightarrow> bool" where
  "plain seg = (\<forall>e \<in> set seg. \<not> resetting e \<and> e \<noteq> Ev_run_simulations)"

text \<open>
  From \<open>s\<close> to \<open>s'\<close> inside one run: \<^verbatim>\<open>cli_args\<close> is untouched, and the events added
  neither seed the stream nor reset a grid.
\<close>

definition inside_run :: "'w state \<Rightarrow> 'w state \<Rightarrow> bool" where
  "inside_run s s' =
     (cli_args s' = cli_args s
      \<and> (\<exists>seg. trace s' = trace s @ seg \<and> (\<forall>e \<in> set seg. \<not> seeding e \<and> \<not> resetting e)))"

text \<open>
  From \<open>s\<close> to \<open>s'\<close> across \<open>k\<close> runs: the events added are all \<open>allowed\<close>, the seeds
  among them are the seed of \<open>s\<close> and its \<open>k - 1\<close> successors, only the seed has changed
  in \<^verbatim>\<open>cli_args\<close>, and unless the status is \<open>FAILURE\<close> the seed has advanced by \<open>k\<close>.
\<close>

definition progress ::
  "(event \<Rightarrow> bool) \<Rightarrow> Function_Status \<Rightarrow> nat \<Rightarrow> 'w state \<Rightarrow> 'w state \<Rightarrow> bool" where
  "progress allowed st k s s' =
     (\<exists>seg. trace s' = trace s @ seg
        \<and> (\<forall>e \<in> set seg. allowed e)
        \<and> srand_seeds seg = map (\<lambda>i. seed (cli_args s) + of_nat i) [0..<k]
        \<and> cli_args s' = (cli_args s)\<lparr>seed := seed (cli_args s')\<rparr>
        \<and> (st \<noteq> FAILURE \<longrightarrow> seed (cli_args s') = seed (cli_args s) + of_nat k))"

text \<open>
  Where an execution can get to. \<open>timestep_reaches ext i (n, s) (m, t)\<close>: the timestep
  loop of run \<open>i\<close>, started with \<^verbatim>\<open>number_timesteps\<close> \<open>= n\<close> in state \<open>s\<close>, comes to its
  head with \<^verbatim>\<open>number_timesteps\<close> \<open>= m\<close> in state \<open>t\<close>. \<open>run_reaches\<close> is the same for
  the loop over runs and \<open>set_reaches\<close> for the loop over simulation sets.
\<close>

inductive timestep_reaches ::
  "'w External \<Rightarrow> int \<Rightarrow> int \<times> 'w state \<Rightarrow> int \<times> 'w state \<Rightarrow> bool"
  for ext :: "'w External" and i :: int and c :: "int \<times> 'w state" where
  timestep_start: "timestep_reaches ext i c c"
| timestep_next:
    "timestep_reaches ext i c (n, s) \<Longrightarrow> \<not> is_environment_empty ext (world s)
     \<Longrightarrow> fst (timestep ext i n s) \<noteq> FAILURE
     \<Longrightarrow> timestep_reaches ext i c (int_increment n, snd (timestep ext i n s))"

inductive run_reaches :: "'w External \<Rightarrow> int \<times> 'w state \<Rightarrow> int \<times> 'w state \<Rightarrow> bool"
  for ext :: "'w External" and c :: "int \<times> 'w state" where
  run_first: "run_reaches ext c c"
| run_next:
    "run_reaches ext c (i, s) \<Longrightarrow> i < num_simulations (cli_args s)
     \<Longrightarrow> simulation_run ext i s = Some (st, s1) \<Longrightarrow> st \<noteq> FAILURE
     \<Longrightarrow> run_reaches ext c (i + 1, increment_seed s1)"

inductive set_reaches :: "'w External \<Rightarrow> 'w state \<Rightarrow> 'w state \<Rightarrow> bool"
  for ext :: "'w External" and s0 :: "'w state" where
  set_first: "set_reaches ext s0 s0"
| set_next:
    "set_reaches ext s0 s \<Longrightarrow> main_iteration ext s = Some (Continue s1)
     \<Longrightarrow> set_reaches ext s0 s1"

section \<open>The floor field and the automaton, modelled from the specification\<close>

text \<open>
  The modules the driver calls are not among the sources. What the claims say about them
  is settled on the definitions of this section, which follow the words of the
  specification; each says what it stands for.
\<close>

subsection \<open>Grids, exits and the combined floor field\<close>

text \<open>
  Modelled from the spec: \<^verbatim>\<open>Location\<close>, the integer (row, column) pair of a grid cell, and
  the kinds of cell of the environment (floor, obstacle, exit).
\<close>

type_synonym Location = "int \<times> int"

datatype Cell_Kind = Floor | Obstacle | Exit_Cell

text \<open>
  Modelled from the spec: a value of a floor field, a \<^verbatim>\<open>double\<close> that is either finite
  or the sentinel of an unreachable cell. The finite values are read as real numbers
  (taking a minimum involves no rounding); the sentinel is above every finite value.
\<close>

datatype field_value = Distance real | Unreachable

instantiation field_value :: linorder
begin

fun less_eq_field_value :: "field_value \<Rightarrow> field_value \<Rightarrow> bool" where
  "less_eq_field_value (Distance a) (Distance b) = (a \<le> b)"
| "less_eq_field_value v Unreachable = True"
| "less_eq_field_value Unreachable (Distance b) = False"

definition less_field_value :: "field_value \<Rightarrow> field_value \<Rightarrow> bool" where
  "less_field_value v w = (v \<le> w \<and> \<not> w \<le> v)"

instance
proof
  fix x y z :: field_value
  show "(x < y) = (x \<le> y \<and> \<not> y \<le> x)" by (simp add: less_field_value_def)
  show "x \<le> x" by (cases x) simp_all
  show "x \<le> y \<Longrightarrow> y \<le> z \<Longrightarrow> x \<le> z" by (cases x; cases y; cases z) simp_all
  show "x \<le> y \<Longrightarrow> y \<le> x \<Longrightarrow> x = y" by (cases x; cases y) simp_all
  show "x \<le> y \<or> y \<le> x" by (cases x; cases y) auto
qed

end

text \<open>
  \<^verbatim>\<open>struct exit\<close> and \<^verbatim>\<open>Exits_Set\<close> of \<^verbatim>\<open>exit.h\<close>; a grid is the list of its rows. The field
  \<^verbatim>\<open>list\<close> of \<^verbatim>\<open>Exits_Set\<close> is \<open>exits_list\<close> here.
\<close>

type_synonym Double_Grid = "field_value list list"

record Exit =
  width :: int
  coordinates :: "Location list"
  floor_field :: Double_Grid

record Exits_Set =
  final_floor_field :: Double_Grid
  exits_list :: "Exit list"
  num_exits :: int

text \<open>
  Modelled from the spec: \<^verbatim>\<open>calculate_final_floor_field\<close>, declared in \<^verbatim>\<open>exit.h\<close> and defined
  in a file that is not among the sources; the combination step of section 4.1
  (\<^verbatim>\<open>combine\<close>). It takes the cell-wise minimum of all exits' fields for every cell. The
  status is \<^verbatim>\<open>FAILURE\<close> on resource exhaustion, \<^verbatim>\<open>INACCESSIBLE_EXIT\<close> if at least one
  walkable cell has no finite value after the combination, and \<^verbatim>\<open>SUCCESS\<close> otherwise.
  \<open>lines\<close> and \<open>columns\<close> are the dimensions every grid of a run shares.
\<close>

definition walkable :: "Cell_Kind \<Rightarrow> bool" where
  "walkable k = (k \<noteq> Obstacle)"

definition cellwise_minimum :: "nat \<Rightarrow> nat \<Rightarrow> Exit list \<Rightarrow> Double_Grid" where
  "cellwise_minimum lines columns exits =
     map (\<lambda>r. map (\<lambda>c. fold min (map (\<lambda>e. floor_field e ! r ! c) exits) Unreachable)
                [0..<columns])
       [0..<lines]"

definition cut_off :: "Cell_Kind list list \<Rightarrow> nat \<Rightarrow> nat \<Rightarrow> Double_Grid \<Rightarrow> bool" where
  "cut_off env lines columns field =
     list_ex (\<lambda>r. list_ex (\<lambda>c. walkable (env ! r ! c) \<and> field ! r ! c = Unreachable) [0..<columns])
       [0..<lines]"

definition combine ::
  "bool \<Rightarrow> Cell_Kind list list \<Rightarrow> nat \<Rightarrow> nat \<Rightarrow> Exits_Set \<Rightarrow> Function_Status \<times> Exits_Set" where
  "combine memory_left env lines columns es =
     (if \<not> memory_left then (FAILURE, es)
      else
        (let field = cellwise_minimum lines columns (exits_list es)
         in (if cut_off env lines columns field then INACCESSIBLE_EXIT else SUCCESS,
             es\<lparr>final_floor_field := field\<rparr>)))"


subsection \<open>Pedestrians, proposals and conflicts\<close>

text \<open>
  Modelled from the spec: the \<^verbatim>\<open>Pedestrian\<close> of section 3 (the pedestrian module is not
  among the sources): a position, the persistent panic state, and the transient fields
  of a timestep, the proposed target and the movement-outcome flag (moved, blocked,
  stayed-by-loss). A pedestrian that is neither blocked nor a loser is flagged \<open>Moved\<close>:
  its accepted move is its proposed target. The resolver flags the losers \<open>Blocked\<close>, as
  section 4.4 words it.
\<close>

datatype Movement_Outcome = Moved | Blocked | Stayed_By_Loss

record Pedestrian =
  position :: Location
  in_panic :: bool
  target :: Location
  outcome :: Movement_Outcome

text \<open>
  Modelled from the spec: the \<^verbatim>\<open>Cell_Conflict\<close> of section 3, a target cell with the
  pedestrians that proposed it (their indices in the registry).
\<close>

record Cell_Conflict =
  cell :: Location
  contenders :: "nat list"

text \<open>
  Modelled from the spec: what the specification leaves to configuration. Which cells
  are the neighbours of a cell, when a random draw puts a pedestrian in panic, whether a
  pedestrian is in panic after \<^verbatim>\<open>reset_pedestrian_panic\<close>, the weight of a contender in a
  conflict (from the floor-field value of its cell), the pseudo-random stream of a seed,
  and how many conflicts the conflict set can hold.
\<close>

record Policies =
  neighbourhood :: "Location \<Rightarrow> Location list"
  panics :: "nat \<Rightarrow> bool"
  panic_after_reset :: "Pedestrian \<Rightarrow> bool"
  weight :: "field_value \<Rightarrow> nat"
  generator :: "32 word \<Rightarrow> nat \<Rightarrow> nat"
  conflict_capacity :: nat

text \<open>
  Modelled from the spec: the memory of the absent modules. The Grid Store (environment,
  heatmap), the Exit Registry, the Pedestrian Registry with the fixed initial placement
  of a static origin, the conflicts of the current timestep, and the pseudo-random
  stream (its seed and the number of draws taken since it was seeded).
\<close>

record automaton =
  environment :: "Cell_Kind list list"
  exits_set :: Exits_Set
  pedestrians :: "Pedestrian list"
  placement :: "Location list"
  conflicts :: "Cell_Conflict list"
  heatmap :: "int list list"
  stream_seed :: "32 word"
  drawn :: nat

text \<open>Modelled from the spec: lookup in a grid; outside the grid there is no cell.\<close>

definition grid_at :: "'a list list \<Rightarrow> Location \<Rightarrow> 'a option" where
  "grid_at g loc =
     (if 0 \<le> fst loc \<and> nat (fst loc) < length g
         \<and> 0 \<le> snd loc \<and> nat (snd loc) < length (g ! nat (fst loc))
      then Some (g ! nat (fst loc) ! nat (snd loc))
      else None)"

definition walkable_at :: "Cell_Kind list list \<Rightarrow> Location \<Rightarrow> bool" where
  "walkable_at env loc = (case grid_at env loc of Some k \<Rightarrow> walkable k | None \<Rightarrow> False)"

definition field_at :: "Exits_Set \<Rightarrow> Location \<Rightarrow> field_value" where
  "field_at es loc =
     (case grid_at (final_floor_field es) loc of Some v \<Rightarrow> v | None \<Rightarrow> Unreachable)"

definition occupied :: "Pedestrian list \<Rightarrow> Location \<Rightarrow> bool" where
  "occupied peds loc = (loc \<in> set (map position peds))"

text \<open>
  Modelled from the spec: \<^verbatim>\<open>evaluate_pedestrians_movements\<close> (section 4.3, step 1). The
  candidates of a pedestrian are its own cell (to stay) and the walkable, unoccupied
  neighbours; occupancy is read as it is when the timestep begins. The pedestrian
  proposes a candidate of minimum floor-field value, ties broken by a draw from the
  stream; in panic it ignores the floor field and the draw chooses among all candidates.
  The pedestrians are visited in the order of the registry, one draw each.
\<close>

definition draw_number :: "Policies \<Rightarrow> automaton \<Rightarrow> nat \<Rightarrow> nat" where
  "draw_number pol w k = generator pol (stream_seed w) k"

definition candidates :: "Policies \<Rightarrow> automaton \<Rightarrow> Pedestrian \<Rightarrow> Location list" where
  "candidates pol w p =
     position p #
     filter (\<lambda>n. walkable_at (environment w) n \<and> \<not> occupied (pedestrians w) n)
       (neighbourhood pol (position p))"

definition best :: "Exits_Set \<Rightarrow> Location list \<Rightarrow> Location list" where
  "best es cs = filter (\<lambda>n. list_all (\<lambda>m. field_at es n \<le> field_at es m) cs) cs"

definition pick :: "'a list \<Rightarrow> nat \<Rightarrow> 'a" where
  "pick xs d = xs ! (d mod length xs)"

definition propose :: "Policies \<Rightarrow> automaton \<Rightarrow> nat \<Rightarrow> Pedestrian \<Rightarrow> Pedestrian" where
  "propose pol w d p =
     p\<lparr>target :=
          (if in_panic p then pick (candidates pol w p) d
           else pick (best (exits_set w) (candidates pol w p)) d),
       outcome := Moved\<rparr>"

fun propose_all :: "Policies \<Rightarrow> automaton \<Rightarrow> nat \<Rightarrow> Pedestrian list \<Rightarrow> Pedestrian list" where
  "propose_all pol w k [] = []"
| "propose_all pol w k (p # ps) =
     propose pol w (draw_number pol w k) p # propose_all pol w (k + 1) ps"

definition evaluate_movements :: "Policies \<Rightarrow> automaton \<Rightarrow> automaton" where
  "evaluate_movements pol w =
     w\<lparr>pedestrians := propose_all pol w (drawn w) (pedestrians w),
       drawn := drawn w + length (pedestrians w)\<rparr>"

text \<open>
  Modelled from the spec: \<^verbatim>\<open>determine_pedestrians_in_panic\<close> (section 4.3, step 2). A draw
  per pedestrian decides whether it enters the panic state; a pedestrian in panic stays
  in panic.
\<close>

fun panic_all :: "Policies \<Rightarrow> automaton \<Rightarrow> nat \<Rightarrow> Pedestrian list \<Rightarrow> Pedestrian list" where
  "panic_all pol w k [] = []"
| "panic_all pol w k (p # ps) =
     p\<lparr>in_panic := in_panic p \<or> panics pol (draw_number pol w k)\<rparr> # panic_all pol w (k + 1) ps"

definition determine_panic :: "Policies \<Rightarrow> automaton \<Rightarrow> automaton" where
  "determine_panic pol w =
     w\<lparr>pedestrians := panic_all pol w (drawn w) (pedestrians w),
       drawn := drawn w + length (pedestrians w)\<rparr>"

text \<open>
  Modelled from the spec: \<^verbatim>\<open>block_X_movement\<close> (section 4.3, step 3, as the phase of
  section 4.5). A pedestrian whose proposal is purely sideways is held in place.
\<close>

definition lateral :: "Pedestrian \<Rightarrow> bool" where
  "lateral p = (fst (target p) = fst (position p) \<and> snd (target p) \<noteq> snd (position p))"

definition block_lateral :: "automaton \<Rightarrow> automaton" where
  "block_lateral w =
     w\<lparr>pedestrians := map (\<lambda>p. if lateral p then p\<lparr>outcome := Blocked\<rparr> else p) (pedestrians w)\<rparr>"

text \<open>
  Modelled from the spec: \<^verbatim>\<open>identify_pedestrian_conflicts\<close> (section 4.4). The pedestrians
  still free to move are grouped by proposed target; a cell proposed by two or more of
  them becomes a conflict. The status is \<^verbatim>\<open>FAILURE\<close> when the conflict set cannot hold
  them all.
\<close>

definition contenders_for :: "Pedestrian list \<Rightarrow> Location \<Rightarrow> nat list" where
  "contenders_for peds c =
     filter (\<lambda>i. outcome (peds ! i) = Moved \<and> target (peds ! i) = c) [0..<length peds]"

definition contested :: "Pedestrian list \<Rightarrow> Location list" where
  "contested peds =
     filter (\<lambda>c. 2 \<le> length (contenders_for peds c))
       (remdups (map target (filter (\<lambda>p. outcome p = Moved) peds)))"

definition identify_conflicts :: "Policies \<Rightarrow> automaton \<Rightarrow> Function_Status \<times> automaton" where
  "identify_conflicts pol w =
     (let cs = map (\<lambda>c. \<lparr>cell = c, contenders = contenders_for (pedestrians w) c\<rparr>)
                 (contested (pedestrians w))
      in if conflict_capacity pol < length cs then (FAILURE, w\<lparr>conflicts := []\<rparr>)
         else (SUCCESS, w\<lparr>conflicts := cs\<rparr>))"

text \<open>
  Modelled from the spec: \<^verbatim>\<open>solve_pedestrian_conflicts\<close> (section 4.4). For each conflict,
  in order, one draw from the stream selects the winner, each contender weighted; the
  losers are flagged blocked and keep their proposal. One round, no re-proposal.
\<close>

fun pick_from :: "nat list \<Rightarrow> nat \<Rightarrow> nat" where
  "pick_from [] r = 0"
| "pick_from [x] r = 0"
| "pick_from (x # xs) r = (if r < x then 0 else Suc (pick_from xs (r - x)))"

definition weighted_draw :: "nat list \<Rightarrow> nat \<Rightarrow> nat" where
  "weighted_draw ws d = pick_from ws (if sum_list ws = 0 then 0 else d mod sum_list ws)"

definition winner :: "Policies \<Rightarrow> automaton \<Rightarrow> nat \<Rightarrow> Cell_Conflict \<Rightarrow> Pedestrian list \<Rightarrow> nat" where
  "winner pol w d cf peds =
     contenders cf !
       weighted_draw (map (\<lambda>i. weight pol (field_at (exits_set w) (position (peds ! i))))
                        (contenders cf)) d"

definition resolve_one ::
  "Policies \<Rightarrow> automaton \<Rightarrow> nat \<Rightarrow> Cell_Conflict \<Rightarrow> Pedestrian list \<Rightarrow> Pedestrian list" where
  "resolve_one pol w d cf peds =
     map (\<lambda>i. if i \<in> set (contenders cf) \<and> i \<noteq> winner pol w d cf peds
               then (peds ! i)\<lparr>outcome := Blocked\<rparr> else peds ! i)
       [0..<length peds]"

fun resolve_all ::
  "Policies \<Rightarrow> automaton \<Rightarrow> nat \<Rightarrow> Cell_Conflict list \<Rightarrow> Pedestrian list \<Rightarrow> Pedestrian list" where
  "resolve_all pol w k [] peds = peds"
| "resolve_all pol w k (cf # cfs) peds =
     resolve_all pol w (k + 1) cfs (resolve_one pol w (draw_number pol w k) cf peds)"

definition solve_conflicts :: "Policies \<Rightarrow> automaton \<Rightarrow> Function_Status \<times> automaton" where
  "solve_conflicts pol w =
     (SUCCESS,
      w\<lparr>pedestrians := resolve_all pol w (drawn w) (conflicts w) (pedestrians w),
        drawn := drawn w + length (conflicts w)\<rparr>)"

text \<open>
  Modelled from the spec: \<^verbatim>\<open>apply_pedestrian_movement\<close>. Every pedestrian takes its accepted
  move, its proposed target unless it was blocked; a pedestrian that reaches an exit
  cell is removed.
\<close>

definition accepted_move :: "Pedestrian \<Rightarrow> Location" where
  "accepted_move p = (if outcome p = Moved then target p else position p)"

definition apply_movement :: "automaton \<Rightarrow> automaton" where
  "apply_movement w =
     w\<lparr>pedestrians :=
         filter (\<lambda>p. grid_at (environment w) (position p) \<noteq> Some Exit_Cell)
           (map (\<lambda>p. p\<lparr>position := accepted_move p\<rparr>) (pedestrians w))\<rparr>"

text \<open>
  Modelled from the spec: \<^verbatim>\<open>update_pedestrian_position_grid\<close> (the heatmap counts a visit
  at the cell of every pedestrian), \<^verbatim>\<open>reset_pedestrian_state\<close> (the transient fields of
  the timestep) and \<^verbatim>\<open>reset_pedestrians_structures\<close> (the fixed initial placement).
  The specification does not describe \<^verbatim>\<open>reset_pedestrian_panic\<close>, which the driver calls
  in every timestep: here it touches nothing but the panic state, and the state it
  leaves a pedestrian in is a policy (\<open>in_panic\<close> itself when the call keeps the panic,
  constantly \<open>False\<close> when it ends it).
\<close>

definition visit :: "int list list \<Rightarrow> Location \<Rightarrow> int list list" where
  "visit h loc =
     (case grid_at h loc of
        None \<Rightarrow> h
      | Some v \<Rightarrow> h[nat (fst loc) := (h ! nat (fst loc))[nat (snd loc) := v + 1]])"

definition update_grids :: "automaton \<Rightarrow> automaton" where
  "update_grids w = w\<lparr>heatmap := fold (\<lambda>p h. visit h (position p)) (pedestrians w) (heatmap w)\<rparr>"

definition reset_state :: "automaton \<Rightarrow> automaton" where
  "reset_state w =
     w\<lparr>pedestrians := map (\<lambda>p. p\<lparr>target := position p, outcome := Moved\<rparr>) (pedestrians w)\<rparr>"

definition reset_panic :: "Policies \<Rightarrow> automaton \<Rightarrow> automaton" where
  "reset_panic pol w =
     w\<lparr>pedestrians := map (\<lambda>p. p\<lparr>in_panic := panic_after_reset pol p\<rparr>) (pedestrians w)\<rparr>"

definition place :: "automaton \<Rightarrow> automaton" where
  "place w =
     w\<lparr>pedestrians :=
         map (\<lambda>loc. \<lparr>position = loc, in_panic = False, target = loc, outcome = Moved\<rparr>)
           (placement w)\<rparr>"

text \<open>
  Modelled from the spec: the absent modules as the driver sees them, for an origin with
  static exits and static pedestrians.
\<close>

definition automaton_ext :: "Policies \<Rightarrow> nat \<Rightarrow> nat \<Rightarrow> automaton External" where
  "automaton_ext pol lines columns =
     \<lparr> origin_uses_auxiliary_data = False,
       origin_uses_static_exits = True,
       origin_uses_static_pedestrians = True,
       get_next_simulation_set = (\<lambda>w. (SUCCESS, 0, w)),
       calculate_final_floor_field =
         (\<lambda>w. case combine True (environment w) lines columns (exits_set w) of
                 (st, es) \<Rightarrow> (st, w\<lparr>exits_set := es\<rparr>)),
       deallocate_exits =
         (\<lambda>w. w\<lparr>exits_set := \<lparr>final_floor_field = [], exits_list = [], num_exits = 0\<rparr>\<rparr>),
       reset_integer_grid =
         (\<lambda>g l c w. if g = heatmap_grid
                     then w\<lparr>heatmap := replicate (nat l) (replicate (nat c) 0)\<rparr> else w),
       exits_set_num_exits = (\<lambda>w. num_exits (exits_set w)),
       srand = (\<lambda>sd w. w\<lparr>stream_seed := sd, drawn := 0\<rparr>),
       insert_pedestrians_at_random = (\<lambda>n w. (SUCCESS, place w)),
       is_environment_empty = (\<lambda>w. pedestrians w = []),
       evaluate_pedestrians_movements = evaluate_movements pol,
       determine_pedestrians_in_panic = determine_panic pol,
       block_X_movement = block_lateral,
       identify_pedestrian_conflicts = identify_conflicts pol,
       solve_pedestrian_conflicts = solve_conflicts pol,
       apply_pedestrian_movement = apply_movement,
       update_pedestrian_position_grid = update_grids,
       reset_pedestrian_state = reset_state,
       reset_pedestrian_panic = reset_panic pol,
       reset_pedestrians_structures = place,
       deallocate_pedestrians = (\<lambda>w. w\<lparr>pedestrians := []\<rparr>),
       deallocate_grid = (\<lambda>g n w. w) \<rparr>"

subsection \<open>Small environments\<close>

text \<open>
  The eight surrounding cells; uniform weights; a stream that counts up from the seed; a
  pedestrian panics on an odd draw and stays in panic.
\<close>

definition moore :: "Location \<Rightarrow> Location list" where
  "moore loc =
     [(fst loc - 1, snd loc - 1), (fst loc - 1, snd loc), (fst loc - 1, snd loc + 1),
      (fst loc, snd loc - 1), (fst loc, snd loc + 1),
      (fst loc + 1, snd loc - 1), (fst loc + 1, snd loc), (fst loc + 1, snd loc + 1)]"

definition corridor_policies :: Policies where
  "corridor_policies =
     \<lparr> neighbourhood = moore, panics = (\<lambda>d. d mod 2 = 1), panic_after_reset = in_panic,
       weight = (\<lambda>v. 1),
       generator = (\<lambda>sd k. unat sd + k), conflict_capacity = 8 \<rparr>"

text \<open>
  Two pedestrians next to the one free cell that leads to the exit; the exits of a
  corridor of four cells with an exit at either end; a state of the driver inside a run;
  the memory after the proposals and the panic determination.
\<close>

definition junction :: automaton where
  "junction =
     \<lparr> environment = [[Exit_Cell, Floor, Floor], [Obstacle, Obstacle, Floor]],
       exits_set =
         \<lparr> final_floor_field = [[Distance 0, Distance 1, Distance 2],
                                 [Unreachable, Unreachable, Distance 3]],
           exits_list =
             [\<lparr> width = 1, coordinates = [(0, 0)],
                floor_field = [[Distance 0, Distance 1, Distance 2],
                               [Unreachable, Unreachable, Distance 3]] \<rparr>],
           num_exits = 1 \<rparr>,
       pedestrians =
         [\<lparr>position = (0, 2), in_panic = False, target = (0, 2), outcome = Moved\<rparr>,
          \<lparr>position = (1, 2), in_panic = False, target = (1, 2), outcome = Moved\<rparr>],
       placement = [(0, 2), (1, 2)],
       conflicts = [],
       heatmap = [[0, 0, 0], [0, 0, 0]],
       stream_seed = 7,
       drawn = 0 \<rparr>"

definition two_exits :: Exits_Set where
  "two_exits =
     \<lparr> final_floor_field = [],
       exits_list =
         [\<lparr> width = 1, coordinates = [(0, 0)],
            floor_field = [[Distance 0, Distance 1, Distance 2, Distance 3]] \<rparr>,
          \<lparr> width = 1, coordinates = [(0, 3)],
            floor_field = [[Distance 3, Distance 2, Distance 1, Distance 0]] \<rparr>],
       num_exits = 2 \<rparr>"

definition inside :: "automaton \<Rightarrow> automaton state" where
  "inside w =
     \<lparr> world = w,
       cli_args = counting_args\<lparr>allow_X_movement := True\<rparr>,
       auxiliary_file = NULL_STREAM, output_file = STDOUT,
       simulation_set_quantity = 1, simulation_set_index = 0,
       current_exit_number = 0, trace = [] \<rparr>"

definition proposed :: "automaton \<Rightarrow> automaton" where
  "proposed w = determine_panic corridor_policies (evaluate_movements corridor_policies w)"

text \<open>
  Policies under which nobody panics, and the memory of the junction as an earlier
  execution may have left it.
\<close>

definition calm_policies :: Policies where
  "calm_policies = corridor_policies\<lparr>panics := (\<lambda>d. False)\<rparr>"



subsection \<open>Reading the registry\<close>

text \<open>
  Each cell holds at most one pedestrian. A proposed target is the pedestrian's own cell
  or a cell nobody stands on. No two pedestrians that are free to move have the same
  target. \<open>settles ps qs\<close>: from \<open>ps\<close> to \<open>qs\<close> nobody moved or changed its proposal, and
  nobody was set free to move.
\<close>

definition one_per_cell :: "automaton \<Rightarrow> bool" where
  "one_per_cell w = distinct (map position (pedestrians w))"

definition targets_free :: "Pedestrian list \<Rightarrow> bool" where
  "targets_free ps =
     (\<forall>i < length ps. target (ps ! i) = position (ps ! i)
        \<or> (\<forall>j < length ps. target (ps ! i) \<noteq> position (ps ! j)))"

definition no_clash :: "Pedestrian list \<Rightarrow> bool" where
  "no_clash ps =
     (\<forall>i < length ps. \<forall>j < length ps.
        i \<noteq> j \<longrightarrow> outcome (ps ! i) = Moved \<longrightarrow> outcome (ps ! j) = Moved
        \<longrightarrow> target (ps ! i) \<noteq> target (ps ! j))"

definition settles :: "Pedestrian list \<Rightarrow> Pedestrian list \<Rightarrow> bool" where
  "settles ps qs =
     (length qs = length ps
      \<and> (\<forall>i < length ps.
            position (qs ! i) = position (ps ! i) \<and> target (qs ! i) = target (ps ! i)
            \<and> (outcome (qs ! i) = Moved \<longrightarrow> outcome (ps ! i) = Moved)))"

subsection \<open>Two executions of one simulation set\<close>






section \<open>Properties of the driver\<close>

subsection \<open>Calls and prints: what each changes\<close>

lemma emit_simps:
  "trace (emit ev s) = trace s @ [ev]"
  "world (emit ev s) = world s"
  "cli_args (emit ev s) = cli_args s"
  "simulation_set_index (emit ev s) = simulation_set_index s"
  "simulation_set_quantity (emit ev s) = simulation_set_quantity s"
  by (simp_all add: emit_def)

lemma call_simps:
  "trace (call f ev s) = trace s @ [ev]"
  "world (call f ev s) = f (world s)"
  "cli_args (call f ev s) = cli_args s"
  "simulation_set_index (call f ev s) = simulation_set_index s"
  "simulation_set_quantity (call f ev s) = simulation_set_quantity s"
  by (simp_all add: call_def)

lemma call_status_simps:
  "fst (call_status f ev s) = fst (f (world s))"
  "trace (snd (call_status f ev s)) = trace s @ [ev (fst (f (world s)))]"
  "world (snd (call_status f ev s)) = snd (f (world s))"
  "cli_args (snd (call_status f ev s)) = cli_args s"
  "simulation_set_index (snd (call_status f ev s)) = simulation_set_index s"
  "simulation_set_quantity (snd (call_status f ev s)) = simulation_set_quantity s"
  by (simp_all add: call_status_def)

lemmas driver_defs =
  main_iteration_def fetch_set_def compute_field_def skip_set_def finish_set_def
  run_simulations_def enter_run_simulations_def simulation_run_def run_start_def run_finish_def increment_seed_def
  timestep_def timestep_proposals_def timestep_commit_def conflict_solving_def
  deallocate_program_structures_def call_def call_status_def emit_def int_increment_def

lemmas counting_defs =
  counting_ext_def exhausted_ext_def counting_args_def counting_start_def counting_busy_def
  heatmap_start_def sealed_start_def static_ext_def sealed_static_def

subsection \<open>The phases of a timestep\<close>

lemma timestep_proposals_simps:
  "cli_args (timestep_proposals ext n s) = cli_args s"
  "trace (timestep_proposals ext n s) =
     trace s
     @ (if show_debug_information (cli_args s) then [Ev_printf_timestep (int_increment n)] else [])
     @ [Ev_evaluate_pedestrians_movements, Ev_determine_pedestrians_in_panic]
     @ (if allow_X_movement (cli_args s) then [] else [Ev_block_X_movement])"
  "world (timestep_proposals ext n s) =
     (if allow_X_movement (cli_args s) then id else block_X_movement ext)
       (determine_pedestrians_in_panic ext (evaluate_pedestrians_movements ext (world s)))"
  by (simp_all add: timestep_proposals_def Let_def emit_simps call_simps)

lemma timestep_commit_simps:
  "cli_args (timestep_commit ext i n s) = cli_args s"
  "trace (timestep_commit ext i n s) =
     trace s
     @ [Ev_apply_pedestrian_movement, Ev_update_pedestrian_position_grid,
        Ev_reset_pedestrian_state, Ev_reset_pedestrian_panic]
     @ (if output_format (cli_args s) = OUTPUT_VISUALIZATION
        then (if write_to_file (cli_args s) then [] else [Ev_sleep])
             @ [Ev_print_pedestrian_position_grid i (int_increment n)]
        else [])"
  "world (timestep_commit ext i n s) =
     reset_pedestrian_panic ext (reset_pedestrian_state ext
       (update_pedestrian_position_grid ext (apply_pedestrian_movement ext (world s))))"
  by (simp_all add: timestep_commit_def Let_def emit_simps call_simps)

lemma conflict_solving_cli [simp]: "cli_args (snd (conflict_solving ext s)) = cli_args s"
  by (simp add: conflict_solving_def case_prod_unfold emit_simps call_status_simps)

lemma conflict_solving_success:
  assumes "fst (conflict_solving ext s) \<noteq> FAILURE"
  shows "fst (identify_pedestrian_conflicts ext (world s)) \<noteq> FAILURE"
    and "fst (solve_pedestrian_conflicts ext (snd (identify_pedestrian_conflicts ext (world s))))
           \<noteq> FAILURE"
    and "trace (snd (conflict_solving ext s)) =
           trace s
           @ [Ev_identify_pedestrian_conflicts (fst (identify_pedestrian_conflicts ext (world s))),
              Ev_solve_pedestrian_conflicts
                (fst (solve_pedestrian_conflicts ext
                        (snd (identify_pedestrian_conflicts ext (world s)))))]
           @ (if show_debug_information (cli_args s)
              then [Ev_print_pedestrian_conflict_information] else [])
           @ [Ev_free_pedestrian_conflicts]"
    and "world (snd (conflict_solving ext s)) =
           snd (solve_pedestrian_conflicts ext (snd (identify_pedestrian_conflicts ext (world s))))"
  using assms
  by (simp_all add: conflict_solving_def case_prod_unfold emit_simps call_status_simps
      split: if_splits)

lemma timestep_cli [simp]: "cli_args (snd (timestep ext i n s)) = cli_args s"
  by (simp add: timestep_def case_prod_unfold timestep_commit_simps timestep_proposals_simps)

text \<open>
  C5 (as amended). A timestep in which \<^verbatim>\<open>conflict_solving\<close> does not fail calls, in this
  order and with nothing skipped: evaluate movements, determine panic, block X movement
  (exactly when \<^verbatim>\<open>allow_X_movement\<close> is off), identify and solve conflicts, apply movement,
  update the position grid, reset the pedestrian state, and reset the pedestrian panic.
  Each phase works on the memory the phase before it left.
\<close>

theorem timestep_phase_order:
  assumes "fst (timestep ext simu_index number_timesteps s) \<noteq> FAILURE"
  shows "\<exists>st1 st2. st1 \<noteq> FAILURE \<and> st2 \<noteq> FAILURE
           \<and> trace (snd (timestep ext simu_index number_timesteps s)) =
               trace s
               @ (if show_debug_information (cli_args s)
                  then [Ev_printf_timestep (int_increment number_timesteps)] else [])
               @ [Ev_evaluate_pedestrians_movements, Ev_determine_pedestrians_in_panic]
               @ (if allow_X_movement (cli_args s) then [] else [Ev_block_X_movement])
               @ [Ev_identify_pedestrian_conflicts st1, Ev_solve_pedestrian_conflicts st2]
               @ (if show_debug_information (cli_args s)
                  then [Ev_print_pedestrian_conflict_information] else [])
               @ [Ev_free_pedestrian_conflicts, Ev_apply_pedestrian_movement,
                  Ev_update_pedestrian_position_grid, Ev_reset_pedestrian_state,
                  Ev_reset_pedestrian_panic]
               @ (if output_format (cli_args s) = OUTPUT_VISUALIZATION
                  then (if write_to_file (cli_args s) then [] else [Ev_sleep])
                       @ [Ev_print_pedestrian_position_grid simu_index (int_increment number_timesteps)]
                  else [])
           \<and> world (snd (timestep ext simu_index number_timesteps s)) =
               reset_pedestrian_panic ext (reset_pedestrian_state ext
                 (update_pedestrian_position_grid ext (apply_pedestrian_movement ext
                   (snd (solve_pedestrian_conflicts ext
                     (snd (identify_pedestrian_conflicts ext
                       ((if allow_X_movement (cli_args s) then id else block_X_movement ext)
                         (determine_pedestrians_in_panic ext
                           (evaluate_pedestrians_movements ext (world s)))))))))))"
proof -
  let ?p = "timestep_proposals ext number_timesteps s"
  have ok: "fst (conflict_solving ext ?p) \<noteq> FAILURE"
    using assms by (simp add: timestep_def case_prod_unfold split: if_splits)
  have step: "snd (timestep ext simu_index number_timesteps s) =
      timestep_commit ext simu_index number_timesteps (snd (conflict_solving ext ?p))"
    using ok by (simp add: timestep_def case_prod_unfold)
  note cs = conflict_solving_success [OF ok]
  show ?thesis
    apply (rule exI [of _ "fst (identify_pedestrian_conflicts ext (world ?p))"])
    apply (rule exI [of _ "fst (solve_pedestrian_conflicts ext
                                 (snd (identify_pedestrian_conflicts ext (world ?p))))"])
    apply (simp only: step)
    apply (insert cs(1,2))
    apply (simp add: cs(3,4) timestep_commit_simps timestep_proposals_simps)
    done
qed

theorem timestep_phase_order_witness:
  "fst (timestep counting_ext 0 0 counting_busy) \<noteq> FAILURE
   \<and> trace (snd (timestep counting_ext 0 0 counting_busy)) =
       [Ev_evaluate_pedestrians_movements, Ev_determine_pedestrians_in_panic,
        Ev_block_X_movement,
        Ev_identify_pedestrian_conflicts SUCCESS, Ev_solve_pedestrian_conflicts SUCCESS,
        Ev_free_pedestrian_conflicts, Ev_apply_pedestrian_movement,
        Ev_update_pedestrian_position_grid, Ev_reset_pedestrian_state,
        Ev_reset_pedestrian_panic]
   \<and> in_room (world (snd (timestep counting_ext 0 0 counting_busy))) = 1"
proof -
  have ok: "fst (timestep counting_ext 0 0 counting_busy) \<noteq> FAILURE"
    by (simp add: driver_defs counting_defs Let_def)
  obtain st1 st2 where
    "trace (snd (timestep counting_ext 0 0 counting_busy)) =
       trace counting_busy
       @ (if show_debug_information (cli_args counting_busy) then [Ev_printf_timestep (int_increment 0)] else [])
       @ [Ev_evaluate_pedestrians_movements, Ev_determine_pedestrians_in_panic]
       @ (if allow_X_movement (cli_args counting_busy) then [] else [Ev_block_X_movement])
       @ [Ev_identify_pedestrian_conflicts st1, Ev_solve_pedestrian_conflicts st2]
       @ (if show_debug_information (cli_args counting_busy)
          then [Ev_print_pedestrian_conflict_information] else [])
       @ [Ev_free_pedestrian_conflicts, Ev_apply_pedestrian_movement,
          Ev_update_pedestrian_position_grid, Ev_reset_pedestrian_state,
          Ev_reset_pedestrian_panic]
       @ (if output_format (cli_args counting_busy) = OUTPUT_VISUALIZATION
          then (if write_to_file (cli_args counting_busy) then [] else [Ev_sleep])
               @ [Ev_print_pedestrian_position_grid 0 (int_increment 0)]
          else [])"
    using timestep_phase_order [OF ok] by blast
  then show ?thesis
    using ok by (simp add: driver_defs counting_defs Let_def)
qed

text \<open>
  C5 as stated fails: when the resolver reports \<^verbatim>\<open>FAILURE\<close>, the timestep stops after
  \<^verbatim>\<open>solve_pedestrian_conflicts\<close> and the loop returns; movement is never applied.
\<close>

theorem timestep_phase_order_counterexample:
  "simulation_loop exhausted_ext 0 0 counting_busy =
     Some (FAILURE, 1,
       counting_busy\<lparr>world := (world counting_busy)\<lparr>in_room := 1, heat := 1\<rparr>,
         trace :=
           [Ev_evaluate_pedestrians_movements, Ev_determine_pedestrians_in_panic,
            Ev_block_X_movement,
            Ev_identify_pedestrian_conflicts SUCCESS, Ev_solve_pedestrian_conflicts SUCCESS,
            Ev_free_pedestrian_conflicts, Ev_apply_pedestrian_movement,
            Ev_update_pedestrian_position_grid, Ev_reset_pedestrian_state,
            Ev_reset_pedestrian_panic,
            Ev_evaluate_pedestrians_movements, Ev_determine_pedestrians_in_panic,
            Ev_block_X_movement,
            Ev_identify_pedestrian_conflicts SUCCESS, Ev_solve_pedestrian_conflicts FAILURE]\<rparr>)"
  by (simp add: simulation_loop.simps driver_defs counting_defs Let_def)

subsection \<open>Inside one run\<close>

lemma inside_run_refl: "inside_run s s"
  by (simp add: inside_run_def)

lemma inside_run_trans: "inside_run s s1 \<Longrightarrow> inside_run s1 s2 \<Longrightarrow> inside_run s s2"
  unfolding inside_run_def by force

lemma inside_run_emit: "\<not> seeding ev \<Longrightarrow> \<not> resetting ev \<Longrightarrow> inside_run s (emit ev s)"
  by (simp add: inside_run_def emit_simps)

lemma inside_run_call: "\<not> seeding ev \<Longrightarrow> \<not> resetting ev \<Longrightarrow> inside_run s (call f ev s)"
  by (simp add: inside_run_def call_simps)

lemma inside_run_call_status:
  "(\<And>st. \<not> seeding (ev st) \<and> \<not> resetting (ev st))
   \<Longrightarrow> inside_run s (snd (call_status f ev s))"
  by (simp add: inside_run_def call_status_simps)

lemmas inside_run_intros =
  inside_run_refl inside_run_emit inside_run_call inside_run_call_status

lemma conflict_solving_inside: "inside_run s (snd (conflict_solving ext s))"
  by (auto simp: inside_run_def conflict_solving_def case_prod_unfold emit_simps
      call_status_simps seeding_def resetting_def)

lemma timestep_proposals_inside: "inside_run s (timestep_proposals ext n s)"
  by (auto simp: inside_run_def timestep_proposals_simps seeding_def resetting_def)

lemma timestep_commit_inside: "inside_run s (timestep_commit ext i n s)"
  by (auto simp: inside_run_def timestep_commit_simps seeding_def resetting_def)

lemma timestep_inside: "inside_run s (snd (timestep ext i n s))"
proof -
  have a: "inside_run s (snd (conflict_solving ext (timestep_proposals ext n s)))"
    by (rule inside_run_trans [OF timestep_proposals_inside conflict_solving_inside])
  have b: "inside_run s (timestep_commit ext i n (snd (conflict_solving ext (timestep_proposals ext n s))))"
    by (rule inside_run_trans [OF a timestep_commit_inside])
  show ?thesis
    using a b by (simp add: timestep_def case_prod_unfold)
qed

lemma simulation_loop_inside:
  assumes "simulation_loop ext i n s = Some r"
  shows "inside_run s (snd (snd r))"
proof (rule simulation_loop.raw_induct
    [where P = "\<lambda>ext i n s r. inside_run s (snd (snd r))", OF _ assms])
  fix loop :: "'a External \<Rightarrow> int \<Rightarrow> int \<Rightarrow> 'a state \<Rightarrow> (Function_Status \<times> int \<times> 'a state) option"
  fix ext i n s r
  assume IH: "\<And>ext i n s r. loop ext i n s = Some r \<Longrightarrow> inside_run s (snd (snd r))"
  assume body: "(if is_environment_empty ext (world s) then Some (SUCCESS, n, s)
      else case timestep ext i n s of
           (st, s1) \<Rightarrow> if st = FAILURE then Some (FAILURE, n, s1) else loop ext i (int_increment n) s1) = Some r"
  show "inside_run s (snd (snd r))"
  proof (cases "is_environment_empty ext (world s)")
    case True
    then show ?thesis using body by (auto simp: inside_run_refl)
  next
    case ne: False
    show ?thesis
    proof (cases "fst (timestep ext i n s) = FAILURE")
      case True
      then show ?thesis
        using body ne timestep_inside [of s ext i n] by (auto simp: case_prod_unfold)
    next
      case False
      then have "loop ext i (int_increment n) (snd (timestep ext i n s)) = Some r"
        using body ne by (simp add: case_prod_unfold)
      from IH [OF this] show ?thesis
        using inside_run_trans [OF timestep_inside] by blast
    qed
  qed
qed

lemma run_start_inside:
  "inside_run (call (srand ext (seed (cli_args s))) (Ev_srand (seed (cli_args s))) s)
     (snd (run_start ext i s))"
  by (auto simp: inside_run_def run_start_def Let_def case_prod_unfold emit_simps call_simps
      call_status_simps seeding_def resetting_def)

lemma run_finish_inside: "inside_run s (run_finish ext n s)"
  by (auto simp: inside_run_def run_finish_def Let_def emit_simps call_simps
      seeding_def resetting_def)

lemma simulation_run_inside:
  assumes "simulation_run ext i s = Some (st, s1)"
  shows "inside_run (call (srand ext (seed (cli_args s))) (Ev_srand (seed (cli_args s))) s) s1"
proof (cases "fst (run_start ext i s) = FAILURE")
  case True
  then show ?thesis
    using assms run_start_inside [of ext s i] by (auto simp: simulation_run_def case_prod_unfold)
next
  case False
  then obtain r where r: "simulation_loop ext i 0 (snd (run_start ext i s)) = Some r"
    and s1: "s1 = (if fst r = FAILURE then snd (snd r) else run_finish ext (fst (snd r)) (snd (snd r)))"
    using assms by (auto simp: simulation_run_def case_prod_unfold split: option.splits if_splits)
  have "inside_run (snd (run_start ext i s)) (snd (snd r))"
    by (rule simulation_loop_inside [OF r])
  then have "inside_run (snd (run_start ext i s)) s1"
    unfolding s1 by (auto intro: inside_run_trans run_finish_inside)
  then show ?thesis
    by (rule inside_run_trans [OF run_start_inside])
qed


subsection \<open>Across runs\<close>

lemma srand_seeds_append: "srand_seeds (a @ b) = srand_seeds a @ srand_seeds b"
  by (induction a) (auto split: event.splits)

lemma srand_seeds_quiet: "\<forall>e \<in> set seg. \<not> seeding e \<Longrightarrow> srand_seeds seg = []"
  by (induction seg) (auto simp: seeding_def split: event.splits)

lemma seed_range_append:
  "map (\<lambda>i. (a :: 32 word) + of_nat i) [0..<k1] @ map (\<lambda>i. a + of_nat k1 + of_nat i) [0..<k2]
     = map (\<lambda>i. a + of_nat i) [0..<k1 + k2]"
  by (induction k2) (simp_all add: add.assoc flip: append_assoc)

lemma progress_refl: "progress allowed st 0 s s"
  by (simp add: progress_def)

lemma progress_trans:
  assumes "progress allowed st1 k1 s s1" and "st1 \<noteq> FAILURE" and "progress allowed st k2 s1 s2"
  shows "progress allowed st (k1 + k2) s s2"
proof -
  obtain a where a: "trace s1 = trace s @ a" "\<forall>e \<in> set a. allowed e"
    "srand_seeds a = map (\<lambda>i. seed (cli_args s) + of_nat i) [0..<k1]"
    "cli_args s1 = (cli_args s)\<lparr>seed := seed (cli_args s1)\<rparr>"
    "seed (cli_args s1) = seed (cli_args s) + of_nat k1"
    using assms(1,2) unfolding progress_def by blast
  obtain b where b: "trace s2 = trace s1 @ b" "\<forall>e \<in> set b. allowed e"
    "srand_seeds b = map (\<lambda>i. seed (cli_args s1) + of_nat i) [0..<k2]"
    "cli_args s2 = (cli_args s1)\<lparr>seed := seed (cli_args s2)\<rparr>"
    "st \<noteq> FAILURE \<longrightarrow> seed (cli_args s2) = seed (cli_args s1) + of_nat k2"
    using assms(3) unfolding progress_def by blast
  have 1: "trace s2 = trace s @ (a @ b)" using a(1) b(1) by simp
  have 2: "\<forall>e \<in> set (a @ b). allowed e" using a(2) b(2) by auto
  have 3: "srand_seeds (a @ b) = map (\<lambda>i. seed (cli_args s) + of_nat i) [0..<k1 + k2]"
    by (simp add: srand_seeds_append a(3) b(3) a(5) seed_range_append)
  have 4: "cli_args s2 = (cli_args s)\<lparr>seed := seed (cli_args s2)\<rparr>"
    by (subst b(4), subst a(4)) simp
  have 5: "st \<noteq> FAILURE \<longrightarrow> seed (cli_args s2) = seed (cli_args s) + of_nat (k1 + k2)"
    using b(5) a(5) by (simp add: add.assoc)
  show ?thesis
    unfolding progress_def using 1 2 3 4 5 by blast
qed

lemma progress_mono:
  "(\<And>e. allowed e \<Longrightarrow> allowed' e) \<Longrightarrow> progress allowed st k s s' \<Longrightarrow> progress allowed' st k s s'"
  unfolding progress_def by blast

lemma progress_fail: "progress allowed st k s s' \<Longrightarrow> progress allowed FAILURE k s s'"
  unfolding progress_def by blast

lemma srand_seeds_single: "\<not> seeding ev \<Longrightarrow> srand_seeds [ev] = []"
  by (cases ev) (simp_all add: seeding_def)

lemma progress_emit: "allowed ev \<Longrightarrow> \<not> seeding ev \<Longrightarrow> progress allowed st 0 s (emit ev s)"
  by (simp add: progress_def emit_simps srand_seeds_single del: srand_seeds.simps)

lemma progress_call: "allowed ev \<Longrightarrow> \<not> seeding ev \<Longrightarrow> progress allowed st 0 s (call f ev s)"
  by (simp add: progress_def call_simps srand_seeds_single del: srand_seeds.simps)

lemma cli_args_increment_seed [simp]:
  "cli_args (increment_seed s) = (cli_args s)\<lparr>seed := seed (cli_args s) + 1\<rparr>"
  "trace (increment_seed s) = trace s"
  "world (increment_seed s) = world s"
  by (simp_all add: increment_seed_def)

lemma simulation_run_progress:
  assumes "simulation_run ext i s = Some (st, s1)"
  shows "progress (\<lambda>e. \<not> resetting e) FAILURE 1 s s1"
    and "progress (\<lambda>e. \<not> resetting e) SUCCESS 1 s (increment_seed s1)"
proof -
  obtain seg where seg: "trace s1 = trace s @ Ev_srand (seed (cli_args s)) # seg"
    "\<forall>e \<in> set seg. \<not> seeding e \<and> \<not> resetting e" and cli: "cli_args s1 = cli_args s"
    using simulation_run_inside [OF assms] by (auto simp: inside_run_def call_simps)
  have sd: "srand_seeds (Ev_srand (seed (cli_args s)) # seg) = [seed (cli_args s)]"
    using seg(2) by (simp add: srand_seeds_quiet)
  have al: "\<forall>e \<in> set (Ev_srand (seed (cli_args s)) # seg). \<not> resetting e"
    using seg(2) by (simp add: resetting_def)
  show "progress (\<lambda>e. \<not> resetting e) FAILURE 1 s s1"
    unfolding progress_def using seg(1) sd al cli by (intro exI [of _ "Ev_srand (seed (cli_args s)) # seg"]) simp
  show "progress (\<lambda>e. \<not> resetting e) SUCCESS 1 s (increment_seed s1)"
    unfolding progress_def using seg(1) sd al cli by (intro exI [of _ "Ev_srand (seed (cli_args s)) # seg"]) simp
qed


lemma run_loop_progress:
  assumes "run_loop ext i s = Some r"
  shows "\<exists>k. progress (\<lambda>e. \<not> resetting e) (fst r) k s (snd r)
            \<and> int k \<le> max 0 (num_simulations (cli_args s) - i)
            \<and> (fst r \<noteq> FAILURE \<longrightarrow> int k = max 0 (num_simulations (cli_args s) - i))"
proof (rule run_loop.raw_induct
    [where P = "\<lambda>ext i s r. \<exists>k. progress (\<lambda>e. \<not> resetting e) (fst r) k s (snd r)
            \<and> int k \<le> max 0 (num_simulations (cli_args s) - i)
            \<and> (fst r \<noteq> FAILURE \<longrightarrow> int k = max 0 (num_simulations (cli_args s) - i))", OF _ assms])
  fix loop :: "'a External \<Rightarrow> int \<Rightarrow> 'a state \<Rightarrow> (Function_Status \<times> 'a state) option"
  fix ext i s r
  assume IH: "\<And>ext i s r. loop ext i s = Some r \<Longrightarrow>
     \<exists>k. progress (\<lambda>e. \<not> resetting e) (fst r) k s (snd r)
            \<and> int k \<le> max 0 (num_simulations (cli_args s) - i)
            \<and> (fst r \<noteq> FAILURE \<longrightarrow> int k = max 0 (num_simulations (cli_args s) - i))"
  assume body: "(if i < num_simulations (cli_args s)
      then case simulation_run ext i s of None \<Rightarrow> None
           | Some (st, s1) \<Rightarrow> if st = FAILURE then Some (FAILURE, s1)
               else loop ext (i + 1) (increment_seed s1)
      else Some (SUCCESS, s)) = Some r"
  show "\<exists>k. progress (\<lambda>e. \<not> resetting e) (fst r) k s (snd r)
            \<and> int k \<le> max 0 (num_simulations (cli_args s) - i)
            \<and> (fst r \<noteq> FAILURE \<longrightarrow> int k = max 0 (num_simulations (cli_args s) - i))"
  proof (cases "i < num_simulations (cli_args s)")
    case False
    then have "r = (SUCCESS, s)" using body by simp
    then show ?thesis using False by (intro exI [of _ 0]) (simp add: progress_refl)
  next
    case lt: True
    then obtain st s1 where run: "simulation_run ext i s = Some (st, s1)"
      using body by (auto split: option.splits)
    show ?thesis
    proof (cases "st = FAILURE")
      case True
      then have "r = (FAILURE, s1)" using body lt run by simp
      then show ?thesis
        using simulation_run_progress(1) [OF run] lt by (intro exI [of _ 1]) simp
    next
      case False
      then have "loop ext (i + 1) (increment_seed s1) = Some r"
        using body lt run by simp
      from IH [OF this] obtain k where k:
        "progress (\<lambda>e. \<not> resetting e) (fst r) k (increment_seed s1) (snd r)"
        "int k \<le> max 0 (num_simulations (cli_args (increment_seed s1)) - (i + 1))"
        "fst r \<noteq> FAILURE \<longrightarrow> int k = max 0 (num_simulations (cli_args (increment_seed s1)) - (i + 1))"
        by blast
      have p1: "progress (\<lambda>e. \<not> resetting e) SUCCESS 1 s (increment_seed s1)"
        by (rule simulation_run_progress(2) [OF run])
      have ns: "num_simulations (cli_args (increment_seed s1)) = num_simulations (cli_args s)"
        using simulation_run_inside [OF run] by (simp add: inside_run_def call_simps)
      have "progress (\<lambda>e. \<not> resetting e) (fst r) (1 + k) s (snd r)"
        by (rule progress_trans [OF p1 _ k(1)]) simp
      moreover have "int (1 + k) \<le> max 0 (num_simulations (cli_args s) - i)"
        using k(2) lt unfolding ns by simp
      moreover have "fst r \<noteq> FAILURE \<longrightarrow> int (1 + k) = max 0 (num_simulations (cli_args s) - i)"
        using k(3) lt unfolding ns by simp
      ultimately show ?thesis by blast
    qed
  qed
qed

lemma enter_run_simulations_progress:
  "progress (\<lambda>e. \<not> resetting e) SUCCESS 0 s (enter_run_simulations ext s)"
  "cli_args (enter_run_simulations ext s) = cli_args s"
  "\<exists>seg. trace (enter_run_simulations ext s) = trace s @ Ev_run_simulations # seg"
  by (simp_all add: progress_def enter_run_simulations_def Let_def emit_simps resetting_def)

lemma run_simulations_progress:
  assumes "run_simulations ext s = Some r"
  shows "\<exists>k. progress (\<lambda>e. \<not> resetting e) (fst r) k s (snd r)
            \<and> int k \<le> max 0 (num_simulations (cli_args s))
            \<and> (fst r \<noteq> FAILURE \<longrightarrow> int k = max 0 (num_simulations (cli_args s)))"
proof -
  obtain k where k: "progress (\<lambda>e. \<not> resetting e) (fst r) k (enter_run_simulations ext s) (snd r)"
    "int k \<le> max 0 (num_simulations (cli_args s))"
    "fst r \<noteq> FAILURE \<longrightarrow> int k = max 0 (num_simulations (cli_args s))"
    using run_loop_progress [of ext 0 "enter_run_simulations ext s" r] assms
    by (auto simp: run_simulations_def enter_run_simulations_progress(2))
  have "progress (\<lambda>e. \<not> resetting e) (fst r) (0 + k) s (snd r)"
    by (rule progress_trans [OF enter_run_simulations_progress(1) _ k(1)]) simp
  then show ?thesis using k(2,3) by auto
qed


lemma sint_add_of_nat:
  fixes a :: "32 word"
  assumes "sint a + int i < 2 ^ 31"
  shows "sint (a + of_nat i) = sint a + int i"
proof -
  have "a + of_nat i = word_of_int (sint a + int i)"
    by simp
  then have "sint (a + of_nat i) = signed_take_bit 31 (sint a + int i)"
    by (simp only: sint_sbintrunc') simp
  also have "\<dots> = sint a + int i"
  proof (rule signed_take_bit_int_eq_self)
    have "- (2 ^ 31) \<le> sint a" using sint_ge [of a] by simp
    then show "- (2 ^ 31) \<le> sint a + int i" by simp
    show "sint a + int i < 2 ^ 31" by (rule assms)
  qed
  finally show ?thesis .
qed

lemma seeds_increasing:
  fixes a :: "32 word"
  assumes "sint a + int k \<le> 2 ^ 31"
  shows "sorted_wrt (\<lambda>x y. sint x < sint y) (map (\<lambda>i. a + of_nat i) [0..<k])"
proof -
  have "sint (a + of_nat i) < sint (a + of_nat j)" if "i < j" "j < k" for i j
    using that assms by (simp add: sint_add_of_nat)
  then show ?thesis
    by (simp add: sorted_wrt_iff_nth_less)
qed

subsection \<open>Across simulation sets\<close>

lemma fetch_set_progress: "progress (\<lambda>e. True) st 0 s (pass_state (fetch_set ext s))"
  by (simp add: progress_def fetch_set_def case_prod_unfold Let_def)

lemma compute_field_progress: "progress (\<lambda>e. True) st 0 s (snd (compute_field ext s))"
  by (simp add: progress_def compute_field_def call_status_simps emit_simps)

lemma skip_set_progress: "progress (\<lambda>e. True) st 0 s (skip_set ext s)"
  by (simp add: progress_def skip_set_def Let_def call_simps emit_simps)

lemma finish_set_progress: "progress (\<lambda>e. True) st 0 s (finish_set ext s)"
  by (simp add: progress_def finish_set_def Let_def call_simps emit_simps)

lemma deallocate_program_structures_progress:
  "progress (\<lambda>e. True) st 0 s (deallocate_program_structures ext s)"
  by (simp add: progress_def deallocate_program_structures_def Let_def call_simps emit_simps)

lemma main_iteration_progress:
  assumes "main_iteration ext s = Some p"
  shows "\<exists>k. progress (\<lambda>e. True) (case p of Return s' \<Rightarrow> FAILURE | _ \<Rightarrow> SUCCESS) k s (pass_state p)"
proof (cases "fetch_set ext s")
  case (Return s1)
  then have "p = Return s1" using assms by (simp add: main_iteration_def)
  then show ?thesis using fetch_set_progress [of FAILURE s ext] Return by auto
next
  case (Break s1)
  then have "p = Break s1" using assms by (simp add: main_iteration_def)
  then show ?thesis using fetch_set_progress [of SUCCESS s ext] Break by auto
next
  case (Continue s1)
  have f: "progress (\<lambda>e. True) SUCCESS 0 s s1"
    using fetch_set_progress [of SUCCESS s ext] Continue by simp
  let ?c = "compute_field ext s1"
  have c: "progress (\<lambda>e. True) st (0 + 0) s (snd ?c)" for st
    by (rule progress_trans [OF f _ compute_field_progress]) simp
  show ?thesis
  proof (cases "fst ?c = FAILURE")
    case True
    then have "p = Return (snd ?c)"
      using assms Continue by (simp add: main_iteration_def case_prod_unfold)
    then show ?thesis using c [of FAILURE] by auto
  next
    case nf: False
    show ?thesis
    proof (cases "fst ?c = INACCESSIBLE_EXIT")
      case True
      then have p: "p = Continue (skip_set ext (snd ?c))"
        using assms Continue by (simp add: main_iteration_def case_prod_unfold)
      have "progress (\<lambda>e. True) SUCCESS (0 + 0 + 0) s (skip_set ext (snd ?c))"
        by (rule progress_trans [OF c [of SUCCESS] _ skip_set_progress]) simp
      then show ?thesis using p by auto
    next
      case False
      then obtain r where r: "run_simulations ext (snd ?c) = Some r"
        and p: "p = (if fst r = FAILURE then Return (snd r)
                     else if origin_uses_static_exits ext then Break (finish_set ext (snd r))
                     else Continue (finish_set ext (snd r)))"
        using assms Continue nf
        by (auto simp: main_iteration_def case_prod_unfold split: option.splits if_splits)
      obtain k where "progress (\<lambda>e. \<not> resetting e) (fst r) k (snd ?c) (snd r)"
        using run_simulations_progress [OF r] by blast
      then have "progress (\<lambda>e. True) (fst r) k (snd ?c) (snd r)"
        by (rule progress_mono [rotated]) simp
      then have k: "progress (\<lambda>e. True) (fst r) (0 + 0 + k) s (snd r)"
        by (rule progress_trans [OF c [of SUCCESS], rotated]) simp
      show ?thesis
      proof (cases "fst r = FAILURE")
        case True
        then show ?thesis using k p by auto
      next
        case False
        have "progress (\<lambda>e. True) SUCCESS (0 + 0 + k + 0) s (finish_set ext (snd r))"
          by (rule progress_trans [OF k False finish_set_progress])
        then show ?thesis using p False by auto
      qed
    qed
  qed
qed

lemma main_loop_progress:
  assumes "main_loop ext s = Some s'"
  shows "\<exists>k. progress (\<lambda>e. True) FAILURE k s s'"
proof (rule main_loop.raw_induct
    [where P = "\<lambda>ext s s'. \<exists>k. progress (\<lambda>e. True) FAILURE k s s'", OF _ assms])
  fix loop :: "'a External \<Rightarrow> 'a state \<Rightarrow> 'a state option"
  fix ext s s'
  assume IH: "\<And>ext s s'. loop ext s = Some s' \<Longrightarrow> \<exists>k. progress (\<lambda>e. True) FAILURE k s s'"
  assume body: "(case main_iteration ext s of None \<Rightarrow> None | Some (Return s1) \<Rightarrow> Some s1
      | Some (Break s1) \<Rightarrow> Some (deallocate_program_structures ext s1)
      | Some (Continue s1) \<Rightarrow> loop ext s1) = Some s'"
  then obtain p where p: "main_iteration ext s = Some p"
    by (auto split: option.splits)
  obtain k where k: "progress (\<lambda>e. True) (case p of Return s' \<Rightarrow> FAILURE | _ \<Rightarrow> SUCCESS) k s (pass_state p)"
    using main_iteration_progress [OF p] by blast
  show "\<exists>k. progress (\<lambda>e. True) FAILURE k s s'"
  proof (cases p)
    case (Return s1)
    then show ?thesis using k body p by auto
  next
    case (Break s1)
    then have s': "s' = deallocate_program_structures ext s1" using body p by simp
    have k1: "progress (\<lambda>e. True) SUCCESS k s s1" using k Break by simp
    have "progress (\<lambda>e. True) FAILURE (k + 0) s (deallocate_program_structures ext s1)"
      by (rule progress_trans [OF k1 _ deallocate_program_structures_progress]) simp
    then show ?thesis using s' by blast
  next
    case (Continue s1)
    then have "loop ext s1 = Some s'" using body p by simp
    from IH [OF this] obtain k' where k': "progress (\<lambda>e. True) FAILURE k' s1 s'" by blast
    have k1: "progress (\<lambda>e. True) SUCCESS k s s1" using k Continue by simp
    have "progress (\<lambda>e. True) FAILURE (k + k') s s'"
      by (rule progress_trans [OF k1 _ k']) simp
    then show ?thesis by blast
  qed
qed

lemma progress_seeds:
  "progress allowed st k s s'
   \<Longrightarrow> srand_seeds (trace s') = srand_seeds (trace s) @ map (\<lambda>i. seed (cli_args s) + of_nat i) [0..<k]"
  unfolding progress_def by (auto simp: srand_seeds_append)

text \<open>
  C10 (as amended). In \<^verbatim>\<open>run_simulations\<close> the run with index \<open>i\<close> seeds the stream
  once, with the seed the set was entered with plus \<open>i\<close> (32-bit arithmetic); after a set
  whose runs all completed the seed has advanced by the number of runs. Across the whole
  process the seeds handed to \<^verbatim>\<open>srand\<close> are the initial seed and its successors, one
  by one. They increase strictly, read as \<^verbatim>\<open>int\<close>, as long as the initial seed plus the
  number of runs stays within the range of \<^verbatim>\<open>int\<close>.
\<close>

theorem seeds_count_up:
  "(run_simulations ext s = Some (st, s') \<longrightarrow>
      (\<exists>k. int k \<le> max 0 (num_simulations (cli_args s))
          \<and> srand_seeds (trace s') =
              srand_seeds (trace s) @ map (\<lambda>i. seed (cli_args s) + of_nat i) [0..<k]
          \<and> (st \<noteq> FAILURE \<longrightarrow>
                int k = max 0 (num_simulations (cli_args s))
                \<and> cli_args s' = (cli_args s)\<lparr>seed := seed (cli_args s) + of_nat k\<rparr>)))
   \<and> (main_loop ext s0 = Some sf \<longrightarrow>
      (\<exists>n. srand_seeds (trace sf) =
              srand_seeds (trace s0) @ map (\<lambda>i. seed (cli_args s0) + of_nat i) [0..<n]
          \<and> (sint (seed (cli_args s0)) + int n \<le> 2 ^ 31 \<longrightarrow>
                sorted_wrt (\<lambda>a b. sint a < sint b)
                  (map (\<lambda>i. seed (cli_args s0) + of_nat i) [0..<n]))))"
proof (intro conjI impI)
  assume "run_simulations ext s = Some (st, s')"
  from run_simulations_progress [OF this] obtain k where
    k: "progress (\<lambda>e. \<not> resetting e) st k s s'" "int k \<le> max 0 (num_simulations (cli_args s))"
       "st \<noteq> FAILURE \<longrightarrow> int k = max 0 (num_simulations (cli_args s))"
    by auto
  have "st \<noteq> FAILURE \<longrightarrow> cli_args s' = (cli_args s)\<lparr>seed := seed (cli_args s) + of_nat k\<rparr>"
    using k(1) unfolding progress_def by metis
  then show "\<exists>k. int k \<le> max 0 (num_simulations (cli_args s))
          \<and> srand_seeds (trace s') =
              srand_seeds (trace s) @ map (\<lambda>i. seed (cli_args s) + of_nat i) [0..<k]
          \<and> (st \<noteq> FAILURE \<longrightarrow>
                int k = max 0 (num_simulations (cli_args s))
                \<and> cli_args s' = (cli_args s)\<lparr>seed := seed (cli_args s) + of_nat k\<rparr>)"
    using k(2,3) progress_seeds [OF k(1)] by blast
next
  assume "main_loop ext s0 = Some sf"
  from main_loop_progress [OF this] obtain n where "progress (\<lambda>e. True) FAILURE n s0 sf"
    by blast
  from progress_seeds [OF this] show "\<exists>n. srand_seeds (trace sf) =
              srand_seeds (trace s0) @ map (\<lambda>i. seed (cli_args s0) + of_nat i) [0..<n]
          \<and> (sint (seed (cli_args s0)) + int n \<le> 2 ^ 31 \<longrightarrow>
                sorted_wrt (\<lambda>a b. sint a < sint b)
                  (map (\<lambda>i. seed (cli_args s0) + of_nat i) [0..<n]))"
    using seeds_increasing by blast
qed


theorem seeds_count_up_witness:
  "(\<exists>st s'. run_simulations counting_ext counting_busy = Some (st, s')
        \<and> srand_seeds (trace s') = [7, 8]
        \<and> seed (cli_args s') = 9)
   \<and> (\<exists>sf. main_loop counting_ext counting_start = Some sf
        \<and> srand_seeds (trace sf) = [7, 8, 9, 10]
        \<and> sorted_wrt (\<lambda>a b. sint a < sint b) (srand_seeds (trace sf)))"
proof -
  obtain st s' where run: "run_simulations counting_ext counting_busy = Some (st, s')"
    and st: "st = SUCCESS" and tr: "srand_seeds (trace s') = [7, 8]"
    by (simp add: run_loop.simps simulation_loop.simps driver_defs counting_defs Let_def)
  obtain sf where main: "main_loop counting_ext counting_start = Some sf"
    and trf: "srand_seeds (trace sf) = [7, 8, 9, 10]"
    by (simp add: main_loop.simps run_loop.simps simulation_loop.simps driver_defs
        counting_defs Let_def)
  note inst = seeds_count_up [of counting_ext counting_busy st s' counting_start sf]
  from inst run st obtain k where
    k: "int k = max 0 (num_simulations (cli_args counting_busy))"
       "cli_args s' = (cli_args counting_busy)\<lparr>seed := seed (cli_args counting_busy) + of_nat k\<rparr>"
    by auto
  have "k = 2" using k(1) by (simp add: counting_defs)
  then have sd: "seed (cli_args s') = 9" using k(2) by (simp add: counting_defs)
  from inst main obtain n where
    n: "srand_seeds (trace sf) =
          srand_seeds (trace counting_start) @ map (\<lambda>i. seed (cli_args counting_start) + of_nat i) [0..<n]"
       "sint (seed (cli_args counting_start)) + int n \<le> 2 ^ 31 \<longrightarrow>
          sorted_wrt (\<lambda>a b. sint a < sint b)
            (map (\<lambda>i. seed (cli_args counting_start) + of_nat i) [0..<n])"
    by auto
  have "length (srand_seeds (trace sf)) = n"
    by (subst n(1)) (simp add: counting_defs)
  then have "n = 4" using trf by simp
  then have "sorted_wrt (\<lambda>a b. sint a < sint b) (srand_seeds (trace sf))"
    using n by (simp add: counting_defs)
  then show ?thesis using run tr sd main trf by blast
qed

text \<open>
  C10 as stated fails at the top of the range: from the seed \<open>2147483647\<close> the next run
  is seeded with the bit pattern of \<open>-2147483648\<close>, which is smaller.
\<close>

theorem seeds_count_up_counterexample:
  "map_option (srand_seeds \<circ> trace)
     (main_loop counting_ext (counting_start\<lparr>cli_args := counting_args\<lparr>seed := 0x7FFFFFFF\<rparr>\<rparr>))
     = Some [0x7FFFFFFF, 0x80000000, 0x80000001, 0x80000002]
   \<and> sint (0x80000000 :: 32 word) < sint (0x7FFFFFFF :: 32 word)"
  by (simp add: main_loop.simps run_loop.simps simulation_loop.simps driver_defs
      counting_defs Let_def)


lemma run_simulations_trace:
  assumes "run_simulations ext s = Some r"
  shows "\<exists>seg. trace (snd r) = trace s @ Ev_run_simulations # seg
           \<and> (\<forall>e \<in> set seg. \<not> resetting e)"
    and "cli_args (snd r) = (cli_args s)\<lparr>seed := seed (cli_args (snd r))\<rparr>"
proof -
  obtain k where "progress (\<lambda>e. \<not> resetting e) (fst r) k (enter_run_simulations ext s) (snd r)"
    using run_loop_progress [of ext 0 "enter_run_simulations ext s" r] assms
    by (auto simp: run_simulations_def)
  then obtain b where b: "trace (snd r) = trace (enter_run_simulations ext s) @ b"
    "\<forall>e \<in> set b. \<not> resetting e"
    "cli_args (snd r) = (cli_args (enter_run_simulations ext s))\<lparr>seed := seed (cli_args (snd r))\<rparr>"
    unfolding progress_def by blast
  have "\<exists>a. trace (enter_run_simulations ext s) = trace s @ Ev_run_simulations # a
          \<and> (\<forall>e \<in> set a. \<not> resetting e)"
    by (simp add: enter_run_simulations_def Let_def emit_simps resetting_def)
  then obtain a where a: "trace (enter_run_simulations ext s) = trace s @ Ev_run_simulations # a"
    "\<forall>e \<in> set a. \<not> resetting e"
    by blast
  have "trace (snd r) = trace s @ Ev_run_simulations # (a @ b)" using a(1) b(1) by simp
  moreover have "\<forall>e \<in> set (a @ b). \<not> resetting e" using a(2) b(2) by auto
  ultimately show "\<exists>seg. trace (snd r) = trace s @ Ev_run_simulations # seg
           \<and> (\<forall>e \<in> set seg. \<not> resetting e)" by blast
  show "cli_args (snd r) = (cli_args s)\<lparr>seed := seed (cli_args (snd r))\<rparr>"
    using b(3) by (simp add: enter_run_simulations_progress(2))
qed

lemma fetch_set_trace:
  "\<exists>a. trace (pass_state (fetch_set ext s)) = trace s @ a \<and> plain a"
  "cli_args (pass_state (fetch_set ext s)) = cli_args s"
  by (simp_all add: fetch_set_def case_prod_unfold Let_def plain_def resetting_def)

lemma compute_field_trace:
  "\<exists>a. trace (snd (compute_field ext s)) = trace s @ a \<and> plain a"
  "cli_args (snd (compute_field ext s)) = cli_args s"
  by (simp_all add: compute_field_def call_status_simps emit_simps plain_def resetting_def)

lemma skip_set_trace:
  "\<exists>a. trace (skip_set ext s) = trace s @ a \<and> plain a"
  by (simp add: skip_set_def Let_def call_simps emit_simps plain_def resetting_def)

lemma finish_set_trace:
  "trace (finish_set ext s) =
     trace s
     @ (if origin_uses_auxiliary_data ext then [Ev_deallocate_exits] else [])
     @ (if output_format (cli_args s) = OUTPUT_TIMESTEPS_COUNT then [Ev_fprintf_newline] else [])
     @ (if output_format (cli_args s) = OUTPUT_HEATMAP
        then [Ev_print_heatmap, Ev_reset_integer_grid heatmap_grid] else [])
     @ [Ev_print_execution_status (simulation_set_index s) (simulation_set_quantity s)]"
  "world (finish_set ext s) =
     (if output_format (cli_args s) = OUTPUT_HEATMAP
      then reset_integer_grid ext heatmap_grid
             (global_line_number (cli_args s)) (global_column_number (cli_args s))
      else id)
       ((if origin_uses_auxiliary_data ext then deallocate_exits ext else id) (world s))"
  by (simp_all add: finish_set_def Let_def call_simps emit_simps)


lemma resetting_iff: "resetting e \<longleftrightarrow> (\<exists>g. e = Ev_reset_integer_grid g)"
  by (cases e) (simp_all add: resetting_def)

lemma plain_append: "plain (a @ b) \<longleftrightarrow> plain a \<and> plain b"
  by (auto simp: plain_def)

lemma plain_no_reset: "plain a \<Longrightarrow> Ev_reset_integer_grid g \<notin> set a"
  by (auto simp: plain_def resetting_iff)

lemma plain_no_run: "plain a \<Longrightarrow> Ev_run_simulations \<notin> set a"
  by (auto simp: plain_def)

text \<open>
  C9 (as amended). Take one pass of the loop of \<^verbatim>\<open>main\<close>, that is one simulation set. If
  the output format is \<^verbatim>\<open>OUTPUT_HEATMAP\<close> and the runs of the set completed, the pass
  resets the heatmap exactly once, after every run of the set, right after printing it
  and right before the execution status. In every other pass (another output format, a
  skipped set, a failure) no grid is reset at all. So nothing resets the heatmap between
  the runs of a set.
\<close>

theorem heatmap_reset_only_after_set:
  assumes "main_iteration ext s = Some p"
  shows "\<exists>seg. trace (pass_state p) = trace s @ seg
           \<and> (if output_format (cli_args s) = OUTPUT_HEATMAP
                  \<and> Ev_run_simulations \<in> set seg \<and> (\<forall>s'. p \<noteq> Return s')
               then (\<exists>pre i q w.
                       seg = pre @ [Ev_print_heatmap, Ev_reset_integer_grid heatmap_grid,
                                    Ev_print_execution_status i q]
                       \<and> (\<forall>g. Ev_reset_integer_grid g \<notin> set pre)
                       \<and> world (pass_state p) =
                           reset_integer_grid ext heatmap_grid
                             (global_line_number (cli_args s))
                             (global_column_number (cli_args s)) w)
               else (\<forall>g. Ev_reset_integer_grid g \<notin> set seg))"
proof -
  let ?f = "fetch_set ext s"
  obtain a where a: "trace (pass_state ?f) = trace s @ a" "plain a"
    using fetch_set_trace(1) by blast
  show ?thesis
  proof (cases "\<exists>s1. ?f = Continue s1")
    case False
    then have "p = ?f"
      using assms by (cases ?f) (simp_all add: main_iteration_def)
    then show ?thesis
      using a plain_no_reset [OF a(2)] plain_no_run [OF a(2)] by auto
  next
    case True
    then obtain s1 where s1: "?f = Continue s1" by blast
    have a1: "trace s1 = trace s @ a" using a(1) s1 by simp
    have cli1: "cli_args s1 = cli_args s" using fetch_set_trace(2) [of ext s] s1 by simp
    let ?c = "compute_field ext s1"
    obtain b where b: "trace (snd ?c) = trace s1 @ b" "plain b"
      using compute_field_trace(1) by blast
    have cli2: "cli_args (snd ?c) = cli_args s"
      using compute_field_trace(2) [of ext s1] cli1 by simp
    have ab: "trace (snd ?c) = trace s @ (a @ b)" "plain (a @ b)"
      using a1 b a(2) by (simp_all add: plain_append)
    show ?thesis
    proof (cases "fst ?c = FAILURE")
      case True
      then have "p = Return (snd ?c)"
        using assms s1 by (simp add: main_iteration_def case_prod_unfold)
      then show ?thesis
        using ab plain_no_reset [OF ab(2)] by auto
    next
      case nf: False
      show ?thesis
      proof (cases "fst ?c = INACCESSIBLE_EXIT")
        case True
        then have p: "p = Continue (skip_set ext (snd ?c))"
          using assms s1 by (simp add: main_iteration_def case_prod_unfold)
        obtain c where c: "trace (skip_set ext (snd ?c)) = trace (snd ?c) @ c" "plain c"
          using skip_set_trace by blast
        have abc: "trace (skip_set ext (snd ?c)) = trace s @ (a @ b @ c)" "plain (a @ b @ c)"
          using ab c by (simp_all add: plain_append)
        show ?thesis
          using p abc(1) plain_no_reset [OF abc(2)] plain_no_run [OF abc(2)]
          by (intro exI [of _ "a @ b @ c"]) simp
      next
        case False
        then obtain r where r: "run_simulations ext (snd ?c) = Some r"
          and p: "p = (if fst r = FAILURE then Return (snd r)
                       else if origin_uses_static_exits ext then Break (finish_set ext (snd r))
                       else Continue (finish_set ext (snd r)))"
          using assms s1 nf
          by (auto simp: main_iteration_def case_prod_unfold split: option.splits if_splits)
        obtain d where d: "trace (snd r) = trace (snd ?c) @ Ev_run_simulations # d"
          "\<forall>e \<in> set d. \<not> resetting e"
          using run_simulations_trace(1) [OF r] by blast
        have cli3: "cli_args (snd r) = (cli_args s)\<lparr>seed := seed (cli_args (snd r))\<rparr>"
          using run_simulations_trace(2) [OF r] cli2 by simp
        have fmt: "output_format (cli_args (snd r)) = output_format (cli_args s)"
          "global_line_number (cli_args (snd r)) = global_line_number (cli_args s)"
          "global_column_number (cli_args (snd r)) = global_column_number (cli_args s)"
          by (subst cli3, simp)+
        let ?pre = "a @ b @ Ev_run_simulations # d"
        have pre: "trace (snd r) = trace s @ ?pre" using ab(1) d(1) by simp
        have nr: "Ev_reset_integer_grid g \<notin> set ?pre" for g
          using plain_no_reset [OF ab(2)] d(2) by (auto simp: resetting_iff)
        show ?thesis
        proof (cases "fst r = FAILURE")
          case True
          then show ?thesis using p pre nr by auto
        next
          case ok: False
          let ?q = "finish_set ext (snd r)"
          let ?mid = "(if origin_uses_auxiliary_data ext then [Ev_deallocate_exits] else [])
             @ (if output_format (cli_args s) = OUTPUT_TIMESTEPS_COUNT then [Ev_fprintf_newline] else [])"
          let ?st = "Ev_print_execution_status (simulation_set_index (snd r))
                       (simulation_set_quantity (snd r))"
          have ps: "pass_state p = ?q" "\<forall>s'. p \<noteq> Return s'" using p ok by auto
          have nm: "Ev_reset_integer_grid g \<notin> set (?pre @ ?mid)" for g
            using nr [of g] by auto
          show ?thesis
          proof (cases "output_format (cli_args s) = OUTPUT_HEATMAP")
            case True
            have tr: "trace ?q = trace s @ ((?pre @ ?mid)
                @ [Ev_print_heatmap, Ev_reset_integer_grid heatmap_grid, ?st])"
              using True by (simp add: finish_set_trace(1) fmt pre)
            have w: "world ?q = reset_integer_grid ext heatmap_grid
                (global_line_number (cli_args s)) (global_column_number (cli_args s))
                ((if origin_uses_auxiliary_data ext then deallocate_exits ext else id)
                   (world (snd r)))"
              using True by (simp add: finish_set_trace(2) fmt)
            define full where "full = (?pre @ ?mid)
                @ [Ev_print_heatmap, Ev_reset_integer_grid heatmap_grid, ?st]"
            have tr': "trace (pass_state p) = trace s @ full"
              using tr ps(1) by (simp add: full_def)
            have cond: "output_format (cli_args s) = OUTPUT_HEATMAP
                  \<and> Ev_run_simulations \<in> set full \<and> (\<forall>s'. p \<noteq> Return s')"
              using True ps(2) by (simp add: full_def)
            have body: "\<exists>pre i q w.
                       full = pre @ [Ev_print_heatmap, Ev_reset_integer_grid heatmap_grid,
                                    Ev_print_execution_status i q]
                       \<and> (\<forall>g. Ev_reset_integer_grid g \<notin> set pre)
                       \<and> world (pass_state p) =
                           reset_integer_grid ext heatmap_grid
                             (global_line_number (cli_args s))
                             (global_column_number (cli_args s)) w"
            proof (intro exI conjI allI)
              show "full = (?pre @ ?mid) @ [Ev_print_heatmap, Ev_reset_integer_grid heatmap_grid, ?st]"
                by (simp add: full_def)
              show "Ev_reset_integer_grid g \<notin> set (?pre @ ?mid)" for g
                by (rule nm)
              show "world (pass_state p) = reset_integer_grid ext heatmap_grid
                (global_line_number (cli_args s)) (global_column_number (cli_args s))
                ((if origin_uses_auxiliary_data ext then deallocate_exits ext else id)
                   (world (snd r)))"
                using w ps(1) by simp
            qed
            show ?thesis
              by (rule exI [of _ full]) (simp only: tr' cond body if_True simp_thms)
          next
            case False
            have tr: "trace ?q = trace s @ ((?pre @ ?mid) @ [?st])"
              using False by (simp add: finish_set_trace(1) fmt pre)
            have "Ev_reset_integer_grid g \<notin> set ((?pre @ ?mid) @ [?st])" for g
              using nm [of g] by simp
            then show ?thesis
              using False tr ps(1) by (intro exI [of _ "(?pre @ ?mid) @ [?st]"]) simp
          qed
        qed
      qed
    qed
  qed
qed


lemmas loop_simps = main_loop.simps run_loop.simps simulation_loop.simps

theorem heatmap_reset_only_after_set_witness:
  "\<exists>p. main_iteration counting_ext heatmap_start = Some p
       \<and> (\<exists>pre. trace (pass_state p) =
                   pre @ [Ev_print_heatmap, Ev_reset_integer_grid heatmap_grid,
                          Ev_print_execution_status 0 2]
                 \<and> Ev_reset_integer_grid heatmap_grid \<notin> set pre
                 \<and> Ev_srand 7 \<in> set pre)
       \<and> heat (world (pass_state p)) = 0"
proof -
  obtain p where p: "main_iteration counting_ext heatmap_start = Some p"
    and np: "\<forall>s'. p \<noteq> Return s'"
    and ev: "Ev_run_simulations \<in> set (trace (pass_state p))"
            "Ev_srand 7 \<in> set (trace (pass_state p))"
            "last (trace (pass_state p)) = Ev_print_execution_status 0 2"
    and h: "heat (world (pass_state p)) = 0"
    by (simp add: loop_simps driver_defs counting_defs Let_def)
  from heatmap_reset_only_after_set [OF p] np ev(1)
  obtain pre i q where pre: "trace (pass_state p) =
      pre @ [Ev_print_heatmap, Ev_reset_integer_grid heatmap_grid, Ev_print_execution_status i q]"
    "\<forall>g. Ev_reset_integer_grid g \<notin> set pre"
    by (auto simp: counting_defs)
  have "Ev_print_execution_status i q = Ev_print_execution_status 0 2"
    using ev(3) pre(1) by simp
  moreover have "Ev_srand 7 \<in> set pre" using ev(2) pre(1) by simp
  ultimately show ?thesis using p pre h by auto
qed

text \<open>
  C9 as stated fails: with the timestep counts as output, two simulation sets of two runs
  each go by and no grid is ever reset; the heatmap still holds the visits of all four
  runs when the process ends.
\<close>

theorem heatmap_reset_only_after_set_counterexample:
  "map_option (filter resetting \<circ> trace) (main_loop counting_ext counting_start) = Some []
   \<and> map_option (length \<circ> srand_seeds \<circ> trace) (main_loop counting_ext counting_start) = Some 4
   \<and> map_option (heat \<circ> world) (main_loop counting_ext counting_start) = Some 4"
  by (simp add: loop_simps driver_defs counting_defs resetting_def Let_def)


subsection \<open>Following an execution forwards\<close>

lemma timestep_reaches_loop:
  assumes "timestep_reaches ext i c d"
  shows "simulation_loop ext i (fst c) (snd c) = simulation_loop ext i (fst d) (snd d)"
  using assms
proof induction
  case timestep_start
  show ?case by simp
next
  case (timestep_next n s)
  have "simulation_loop ext i n s = simulation_loop ext i (int_increment n) (snd (timestep ext i n s))"
    using timestep_next(2,3) by (subst simulation_loop.simps) (simp add: case_prod_unfold)
  then show ?case using timestep_next(4) by simp
qed

lemma run_reaches_loop:
  assumes "run_reaches ext c d"
  shows "run_loop ext (fst c) (snd c) = run_loop ext (fst d) (snd d)"
  using assms
proof induction
  case run_first
  show ?case by simp
next
  case (run_next i s st s1)
  have "run_loop ext i s = run_loop ext (i + 1) (increment_seed s1)"
    using run_next(2,3,4) by (subst run_loop.simps) simp
  then show ?case using run_next(5) by simp
qed

lemma set_reaches_loop:
  assumes "set_reaches ext s0 s"
  shows "main_loop ext s0 = main_loop ext s"
  using assms
proof induction
  case set_first
  show ?case by simp
next
  case (set_next s s1)
  have "main_loop ext s = main_loop ext s1"
    using set_next(2) by (subst main_loop.simps) simp
  then show ?case using set_next(3) by simp
qed

text \<open>
  C7 (as amended). Wherever the process has got to (any simulation set, any run of it,
  any timestep of that run), a \<^verbatim>\<open>FAILURE\<close> of \<^verbatim>\<open>conflict_solving\<close> ends the whole
  process there: \<^verbatim>\<open>run_simulations\<close> returns \<^verbatim>\<open>FAILURE\<close>, \<^verbatim>\<open>main\<close> returns, and the final
  state is the one the failed call left. No further timestep, run or simulation set is
  executed, and nothing is deallocated.
\<close>

theorem conflict_failure_ends_process:
  assumes "set_reaches ext s0 s"
    and "fetch_set ext s = Continue s1"
    and "compute_field ext s1 = (rv, s2)" and "rv \<noteq> FAILURE" and "rv \<noteq> INACCESSIBLE_EXIT"
    and "run_reaches ext (0, enter_run_simulations ext s2) (j, r)"
    and "j < num_simulations (cli_args r)"
    and "run_start ext j r = (st, r1)" and "st \<noteq> FAILURE"
    and "timestep_reaches ext j (0, r1) (m, t)"
    and "\<not> is_environment_empty ext (world t)"
    and "conflict_solving ext (timestep_proposals ext m t) = (FAILURE, t')"
  shows "main_loop ext s0 = Some t'"
proof -
  have "timestep ext j m t = (FAILURE, t')"
    using assms(12) by (simp add: timestep_def)
  then have "simulation_loop ext j m t = Some (FAILURE, m, t')"
    using assms(11) by (subst simulation_loop.simps) simp
  then have "simulation_loop ext j 0 r1 = Some (FAILURE, m, t')"
    using timestep_reaches_loop [OF assms(10)] by simp
  then have "simulation_run ext j r = Some (FAILURE, t')"
    using assms(8,9) by (simp add: simulation_run_def)
  then have "run_loop ext j r = Some (FAILURE, t')"
    using assms(7) by (subst run_loop.simps) simp
  then have "run_simulations ext s2 = Some (FAILURE, t')"
    using run_reaches_loop [OF assms(6)] by (simp add: run_simulations_def)
  then have "main_iteration ext s = Some (Return t')"
    using assms(2,3,4,5) by (simp add: main_iteration_def)
  then have "main_loop ext s = Some t'"
    by (subst main_loop.simps) simp
  then show ?thesis
    using set_reaches_loop [OF assms(1)] by simp
qed

theorem conflict_failure_ends_process_witness:
  "main_loop exhausted_ext counting_start =
     Some (snd (conflict_solving exhausted_ext (timestep_proposals exhausted_ext 1
       (snd (timestep exhausted_ext 0 0
         (snd (run_start exhausted_ext 0
           (enter_run_simulations exhausted_ext
             (snd (compute_field exhausted_ext
               (pass_state (fetch_set exhausted_ext counting_start))))))))))))
   \<and> fst (conflict_solving exhausted_ext (timestep_proposals exhausted_ext 1
       (snd (timestep exhausted_ext 0 0
         (snd (run_start exhausted_ext 0
           (enter_run_simulations exhausted_ext
             (snd (compute_field exhausted_ext
               (pass_state (fetch_set exhausted_ext counting_start))))))))))) = FAILURE"
proof -
  define s1 where "s1 = pass_state (fetch_set exhausted_ext counting_start)"
  define s2 where "s2 = snd (compute_field exhausted_ext s1)"
  define r where "r = enter_run_simulations exhausted_ext s2"
  define r1 where "r1 = snd (run_start exhausted_ext 0 r)"
  define t where "t = snd (timestep exhausted_ext 0 0 r1)"
  define t' where "t' = snd (conflict_solving exhausted_ext (timestep_proposals exhausted_ext 1 t))"
  note defs = s1_def s2_def r_def r1_def t_def t'_def driver_defs counting_defs Let_def
  have 1: "set_reaches exhausted_ext counting_start counting_start"
    by (rule set_first)
  have 2: "fetch_set exhausted_ext counting_start = Continue s1"
    by (simp add: defs)
  have 3: "compute_field exhausted_ext s1 = (SUCCESS, s2)"
    by (simp add: defs)
  have 6: "run_reaches exhausted_ext (0, enter_run_simulations exhausted_ext s2) (0, r)"
    unfolding r_def by (rule run_first)
  have 7: "0 < num_simulations (cli_args r)"
    by (simp add: defs)
  have 8: "run_start exhausted_ext 0 r = (SUCCESS, r1)"
    by (simp add: defs)
  have "timestep_reaches exhausted_ext 0 (0, r1)
      (int_increment 0, snd (timestep exhausted_ext 0 0 r1))"
    by (rule timestep_next [OF timestep_start]) (simp_all add: defs)
  then have 10: "timestep_reaches exhausted_ext 0 (0, r1) (1, t)"
    by (simp add: t_def int_increment_def)
  have 11: "\<not> is_environment_empty exhausted_ext (world t)"
    by (simp add: defs)
  have 12: "conflict_solving exhausted_ext (timestep_proposals exhausted_ext 1 t) = (FAILURE, t')"
    by (simp add: defs)
  have "main_loop exhausted_ext counting_start = Some t'"
    by (rule conflict_failure_ends_process [OF 1 2 3 _ _ 6 7 8 _ 10 11 12]) simp_all
  moreover have "fst (conflict_solving exhausted_ext (timestep_proposals exhausted_ext 1 t)) = FAILURE"
    using 12 by simp
  ultimately show ?thesis
    by (simp add: s1_def s2_def r_def r1_def t_def t'_def)
qed

text \<open>
  C7 as stated fails: two simulation sets of two runs each are asked for; the resolver
  fails in the second timestep of the first run, and the trace of the whole process ends
  with that call. One run was seeded, one set fetched.
\<close>

theorem conflict_failure_ends_process_counterexample:
  "map_option trace (main_loop exhausted_ext counting_start) =
     Some [Ev_get_next_simulation_set SUCCESS 1, Ev_calculate_final_floor_field SUCCESS,
           Ev_run_simulations, Ev_srand 7, Ev_insert_pedestrians_at_random 2 SUCCESS,
           Ev_evaluate_pedestrians_movements, Ev_determine_pedestrians_in_panic,
           Ev_block_X_movement,
           Ev_identify_pedestrian_conflicts SUCCESS, Ev_solve_pedestrian_conflicts SUCCESS,
           Ev_free_pedestrian_conflicts, Ev_apply_pedestrian_movement,
           Ev_update_pedestrian_position_grid, Ev_reset_pedestrian_state,
           Ev_reset_pedestrian_panic,
           Ev_evaluate_pedestrians_movements, Ev_determine_pedestrians_in_panic,
           Ev_block_X_movement,
           Ev_identify_pedestrian_conflicts SUCCESS, Ev_solve_pedestrian_conflicts FAILURE]
   \<and> num_simulations (cli_args counting_start) = 2
   \<and> aux_sets (world counting_start) = [(1, True), (2, True)]"
  by (simp add: loop_simps driver_defs counting_defs Let_def)


lemma skip_set_simps:
  "trace (skip_set ext s) =
     trace s
     @ [if output_format (cli_args s) \<noteq> OUTPUT_TIMESTEPS_COUNT
        then Ev_fprintf_inaccessible else Ev_print_placeholder (- 1)]
     @ (if origin_uses_auxiliary_data ext then [Ev_deallocate_exits] else [])
     @ [Ev_print_execution_status (simulation_set_index s) (simulation_set_quantity s)]"
  "world (skip_set ext s) =
     (if origin_uses_auxiliary_data ext then deallocate_exits ext else id) (world s)"
  "simulation_set_index (skip_set ext s) = int_increment (simulation_set_index s)"
  "cli_args (skip_set ext s) = cli_args s"
  by (simp_all add: skip_set_def Let_def call_simps emit_simps)

subsection \<open>An inaccessible simulation set\<close>

text \<open>
  What a pass of the loop does on \<^verbatim>\<open>INACCESSIBLE_EXIT\<close>, for every origin: it takes the
  branch of lines 85 to 96 and goes on to the next pass.
\<close>

lemma inaccessible_pass:
  assumes "fetch_set ext s = Continue s1"
    and "compute_field ext s1 = (INACCESSIBLE_EXIT, s2)"
  shows "main_iteration ext s = Some (Continue (skip_set ext s2))"
  using assms by (simp add: main_iteration_def)

text \<open>
  For an origin that uses auxiliary data the branch releases the exits, and the next
  pass fetches the next simulation set.
\<close>

lemma auxiliary_inaccessible_pass:
  "main_iteration counting_ext sealed_start =
     Some (Continue
       (sealed_start\<lparr>world := (world sealed_start)\<lparr>open_exits := 0, accessible := False,
                                   aux_sets := [(2, True)]\<rparr>,
          current_exit_number := 1, simulation_set_index := 1,
          trace := [Ev_get_next_simulation_set SUCCESS 1,
                    Ev_calculate_final_floor_field INACCESSIBLE_EXIT,
                    Ev_print_placeholder (- 1), Ev_deallocate_exits,
                    Ev_print_execution_status 0 2]\<rparr>))"
  by (simp add: driver_defs counting_defs Let_def)

text \<open>A loop whose every pass ends in the next pass never returns.\<close>

lemma main_loop_never_returns:
  assumes step: "\<And>s. I s \<Longrightarrow> \<exists>s'. main_iteration ext s = Some (Continue s') \<and> I s'"
    and start: "I s"
  shows "main_loop ext s = None"
proof (rule ccontr)
  assume "main_loop ext s \<noteq> None"
  then obtain y where y: "main_loop ext s = Some y" by auto
  have "ext = ext \<longrightarrow> \<not> I s"
  proof (rule main_loop.raw_induct [where P = "\<lambda>e s y. e = ext \<longrightarrow> \<not> I s", OF _ y])
    fix loop :: "'a External \<Rightarrow> 'a state \<Rightarrow> 'a state option"
    fix e s y
    assume IH: "\<And>e s y. loop e s = Some y \<Longrightarrow> e = ext \<longrightarrow> \<not> I s"
    assume body: "(case main_iteration e s of None \<Rightarrow> None | Some (Return s1) \<Rightarrow> Some s1
      | Some (Break s1) \<Rightarrow> Some (deallocate_program_structures e s1)
      | Some (Continue s1) \<Rightarrow> loop e s1) = Some y"
    show "e = ext \<longrightarrow> \<not> I s"
    proof (intro impI notI)
      assume e: "e = ext" and "I s"
      then obtain s' where s': "main_iteration ext s = Some (Continue s')" "I s'"
        using step by blast
      then have "loop ext s' = Some y" using body e by simp
      from IH [OF this] s'(2) show False by simp
    qed
  qed
  then show False using start by simp
qed

lemma static_inaccessible_pass:
  assumes "\<not> accessible (world s)"
  shows "\<exists>s'. main_iteration static_ext s = Some (Continue s') \<and> \<not> accessible (world s')"
  using assms by (simp add: driver_defs counting_defs Let_def)

text \<open>
  C1. For an origin with static exits the claim fails. The \<^verbatim>\<open>continue\<close> of line 96 skips
  the only \<^verbatim>\<open>break\<close> of the loop (lines 119 to 120), the one the success path takes
  because such an origin has a single simulation set. So the loop comes back to the same
  set: the exit is still allocated, the floor fields are combined again, the status line
  is printed again, and as the set stays inaccessible \<^verbatim>\<open>main\<close> never returns.
\<close>

theorem inaccessible_static_set_never_ends:
  "main_iteration static_ext sealed_static =
     Some (Continue
       (sealed_static\<lparr>simulation_set_index := 1,
          trace := [Ev_calculate_final_floor_field INACCESSIBLE_EXIT,
                    Ev_print_placeholder (- 1),
                    Ev_print_execution_status 0 1]\<rparr>))
   \<and> open_exits (world sealed_static) = 1
   \<and> main_loop static_ext sealed_static = None"
proof -
  have "main_loop static_ext sealed_static = None"
    by (rule main_loop_never_returns [where I = "\<lambda>s. \<not> accessible (world s)"])
      (simp_all add: static_inaccessible_pass, simp add: counting_defs)
  then show ?thesis
    by (simp add: driver_defs counting_defs Let_def)
qed

section \<open>Properties of the modelled modules\<close>

subsection \<open>The combined floor field\<close>

lemma Unreachable_top [simp]: "v \<le> Unreachable"
  by simp

lemma fold_min_Unreachable:
  "fold min vs Unreachable = Min (insert Unreachable (set vs))"
  using Min.set_eq_fold [of Unreachable vs] by simp

lemma cellwise_minimum_nth:
  "r < lines \<Longrightarrow> c < columns \<Longrightarrow>
   cellwise_minimum lines columns exits ! r ! c =
     Min (insert Unreachable ((\<lambda>e. floor_field e ! r ! c) ` set exits))"
  by (simp add: cellwise_minimum_def fold_min_Unreachable)

lemma Min_insert_Unreachable:
  "finite S \<Longrightarrow> S \<noteq> {} \<Longrightarrow> Min (insert Unreachable S) = Min S"
  by (subst Min_insert) (simp_all add: min_absorb2)

lemma Min_Unreachable_iff:
  "finite S \<Longrightarrow> Min (insert Unreachable S) = Unreachable \<longleftrightarrow> (\<forall>v \<in> S. v = Unreachable)"
proof
  assume f: "finite S" and m: "Min (insert Unreachable S) = Unreachable"
  show "\<forall>v \<in> S. v = Unreachable"
  proof
    fix v assume "v \<in> S"
    then have "Min (insert Unreachable S) \<le> v" using f by simp
    then have "Unreachable \<le> v" using m by simp
    then show "v = Unreachable" by (cases v) simp_all
  qed
next
  assume f: "finite S" and a: "\<forall>v \<in> S. v = Unreachable"
  then have eq: "insert Unreachable S = {Unreachable}" by auto
  show "Min (insert Unreachable S) = Unreachable" unfolding eq by simp
qed

text \<open>
  C4. After a successful combination the combined floor field is, at every cell, the
  minimum of the member exits' floor fields at that cell. A cell is unreachable in the
  combined field exactly when it has no finite value in any exit's field, and then it
  is not a walkable cell. The list of exits is untouched.
\<close>

theorem combined_field_is_cellwise_minimum:
  assumes "combine memory_left env lines columns es = (SUCCESS, es')"
    and "r < lines" and "c < columns"
  shows "(exits_list es \<noteq> [] \<longrightarrow>
            final_floor_field es' ! r ! c
              = Min ((\<lambda>e. floor_field e ! r ! c) ` set (exits_list es)))
         \<and> (final_floor_field es' ! r ! c = Unreachable
              \<longleftrightarrow> (\<forall>e \<in> set (exits_list es). floor_field e ! r ! c = Unreachable))
         \<and> (walkable (env ! r ! c) \<longrightarrow> final_floor_field es' ! r ! c \<noteq> Unreachable)
         \<and> exits_list es' = exits_list es"
proof -
  let ?f = "cellwise_minimum lines columns (exits_list es)"
  have es': "es' = es\<lparr>final_floor_field := ?f\<rparr>" and ok: "\<not> cut_off env lines columns ?f"
    using assms(1) by (auto simp: combine_def Let_def split: if_splits)
  have v: "final_floor_field es' ! r ! c
      = Min (insert Unreachable ((\<lambda>e. floor_field e ! r ! c) ` set (exits_list es)))"
    using assms(2,3) by (simp add: es' cellwise_minimum_nth)
  have 1: "exits_list es \<noteq> [] \<longrightarrow> final_floor_field es' ! r ! c
              = Min ((\<lambda>e. floor_field e ! r ! c) ` set (exits_list es))"
    unfolding v by (auto intro!: Min_insert_Unreachable)
  have 2: "final_floor_field es' ! r ! c = Unreachable
              \<longleftrightarrow> (\<forall>e \<in> set (exits_list es). floor_field e ! r ! c = Unreachable)"
    unfolding v by (subst Min_Unreachable_iff) auto
  have 3: "walkable (env ! r ! c) \<longrightarrow> final_floor_field es' ! r ! c \<noteq> Unreachable"
    using ok assms(2,3) by (auto simp: cut_off_def list_ex_iff es')
  show ?thesis using 1 2 3 es' by simp
qed

theorem combined_field_is_cellwise_minimum_witness:
  "combine True [[Exit_Cell, Floor, Floor, Exit_Cell]] 1 4 two_exits =
     (SUCCESS,
      two_exits\<lparr>final_floor_field := [[Distance 0, Distance 1, Distance 1, Distance 0]]\<rparr>)
   \<and> Min ((\<lambda>e. floor_field e ! 0 ! 2) ` set (exits_list two_exits)) = Distance 1"
proof -
  have run: "combine True [[Exit_Cell, Floor, Floor, Exit_Cell]] 1 4 two_exits =
     (SUCCESS,
      two_exits\<lparr>final_floor_field := [[Distance 0, Distance 1, Distance 1, Distance 0]]\<rparr>)"
    by code_simp
  have ne: "exits_list two_exits \<noteq> []"
    by (simp add: two_exits_def)
  from combined_field_is_cellwise_minimum [OF run, of 0 2] ne
  have "final_floor_field
          (two_exits\<lparr>final_floor_field := [[Distance 0, Distance 1, Distance 1, Distance 0]]\<rparr>)
          ! 0 ! 2
        = Min ((\<lambda>e. floor_field e ! 0 ! 2) ` set (exits_list two_exits))"
    by simp
  then have "Min ((\<lambda>e. floor_field e ! 0 ! 2) ` set (exits_list two_exits)) = Distance 1"
    by simp
  then show ?thesis using run by simp
qed

subsection \<open>Proposals, conflicts and the apply phase\<close>

subsection \<open>Proposals\<close>

lemma pick_in: "xs \<noteq> [] \<Longrightarrow> pick xs d \<in> set xs"
  by (simp add: pick_def)

lemma best_subset: "set (best es cs) \<subseteq> set cs"
  by (auto simp: best_def)

lemma best_nonempty:
  assumes "cs \<noteq> []"
  shows "best es cs \<noteq> []"
proof -
  have "Min (field_at es ` set cs) \<in> field_at es ` set cs"
    using assms by (intro Min_in) auto
  then obtain n where n: "n \<in> set cs" "field_at es n = Min (field_at es ` set cs)"
    by auto
  have "\<forall>m \<in> set cs. field_at es n \<le> field_at es m"
    using n(2) by simp
  then have "n \<in> set (best es cs)"
    using n(1) by (simp add: best_def list_all_iff)
  then show ?thesis by auto
qed

lemma propose_target:
  "target (propose pol w d p) \<in> set (candidates pol w p)"
proof -
  have cs: "candidates pol w p \<noteq> []"
    by (simp add: candidates_def)
  show ?thesis
  proof (cases "in_panic p")
    case True
    then show ?thesis using pick_in [OF cs] by (simp add: propose_def)
  next
    case False
    have "pick (best (exits_set w) (candidates pol w p)) d \<in> set (best (exits_set w) (candidates pol w p))"
      by (rule pick_in [OF best_nonempty [OF cs]])
    then have "pick (best (exits_set w) (candidates pol w p)) d \<in> set (candidates pol w p)"
      using best_subset by blast
    then show ?thesis using False by (simp add: propose_def)
  qed
qed

lemma propose_simps [simp]:
  "position (propose pol w d p) = position p"
  "in_panic (propose pol w d p) = in_panic p"
  "outcome (propose pol w d p) = Moved"
  by (simp_all add: propose_def)

lemma candidates_free:
  "c \<in> set (candidates pol w p) \<Longrightarrow> c = position p \<or> c \<notin> set (map position (pedestrians w))"
  by (auto simp: candidates_def occupied_def)

lemma propose_all_length [simp]: "length (propose_all pol w k ps) = length ps"
  by (induction ps arbitrary: k) simp_all

lemma propose_all_nth:
  "i < length ps \<Longrightarrow> propose_all pol w k ps ! i = propose pol w (draw_number pol w (k + i)) (ps ! i)"
proof (induction ps arbitrary: k i)
  case Nil
  then show ?case by simp
next
  case (Cons p ps)
  then show ?case by (cases i) simp_all
qed

lemma evaluate_movements_facts:
  "map position (pedestrians (evaluate_movements pol w)) = map position (pedestrians w)"
  "targets_free (pedestrians (evaluate_movements pol w))"
  "environment (evaluate_movements pol w) = environment w"
proof -
  let ?qs = "pedestrians (evaluate_movements pol w)"
  have len: "length ?qs = length (pedestrians w)"
    by (simp add: evaluate_movements_def)
  have nth: "?qs ! i = propose pol w (draw_number pol w (drawn w + i)) (pedestrians w ! i)"
    if "i < length (pedestrians w)" for i
    using that by (simp add: evaluate_movements_def propose_all_nth)
  show pos: "map position ?qs = map position (pedestrians w)"
    by (rule nth_equalityI) (simp_all add: len nth)
  show "targets_free ?qs"
    unfolding targets_free_def
  proof (intro allI impI)
    fix i assume i: "i < length ?qs"
    then have i': "i < length (pedestrians w)" using len by simp
    have "target (?qs ! i) \<in> set (candidates pol w (pedestrians w ! i))"
      by (simp add: nth [OF i'] propose_target)
    then have "target (?qs ! i) = position (pedestrians w ! i)
        \<or> target (?qs ! i) \<notin> set (map position (pedestrians w))"
      by (rule candidates_free)
    moreover have "x \<noteq> position (pedestrians w ! j)"
      if "x \<notin> set (map position (pedestrians w))" "j < length (pedestrians w)" for x j
      using that by (metis length_map nth_map nth_mem)
    ultimately have "target (?qs ! i) = position (pedestrians w ! i)
        \<or> (\<forall>j < length (pedestrians w). target (?qs ! i) \<noteq> position (pedestrians w ! j))"
      by blast
    then show "target (?qs ! i) = position (?qs ! i)
        \<or> (\<forall>j < length ?qs. target (?qs ! i) \<noteq> position (?qs ! j))"
      using i' len by (simp add: nth)
  qed
  show "environment (evaluate_movements pol w) = environment w"
    by (simp add: evaluate_movements_def)
qed

subsection \<open>Phases that only settle what was proposed\<close>

lemma settles_refl: "settles ps ps"
  by (simp add: settles_def)

lemma settles_trans: "settles ps qs \<Longrightarrow> settles qs rs \<Longrightarrow> settles ps rs"
  by (simp add: settles_def)

lemma settles_positions: "settles ps qs \<Longrightarrow> map position qs = map position ps"
  by (rule nth_equalityI) (simp_all add: settles_def)

lemma settles_targets_free: "settles ps qs \<Longrightarrow> targets_free ps \<Longrightarrow> targets_free qs"
  by (simp add: settles_def targets_free_def)

lemma panic_all_length [simp]: "length (panic_all pol w k ps) = length ps"
  by (induction ps arbitrary: k) simp_all

lemma panic_all_nth:
  "i < length ps \<Longrightarrow>
   panic_all pol w k ps ! i =
     (ps ! i)\<lparr>in_panic := in_panic (ps ! i) \<or> panics pol (draw_number pol w (k + i))\<rparr>"
proof (induction ps arbitrary: k i)
  case Nil
  then show ?case by simp
next
  case (Cons p ps)
  then show ?case by (cases i) simp_all
qed

lemma determine_panic_settles:
  "settles (pedestrians w) (pedestrians (determine_panic pol w))"
  "environment (determine_panic pol w) = environment w"
  by (simp_all add: settles_def determine_panic_def panic_all_nth)

lemma block_lateral_settles:
  "settles (pedestrians w) (pedestrians (block_lateral w))"
  "environment (block_lateral w) = environment w"
  by (simp_all add: settles_def block_lateral_def)

lemma resolve_one_length [simp]: "length (resolve_one pol w d cf ps) = length ps"
  by (simp add: resolve_one_def)

lemma resolve_one_nth:
  "i < length ps \<Longrightarrow>
   resolve_one pol w d cf ps ! i =
     (if i \<in> set (contenders cf) \<and> i \<noteq> winner pol w d cf ps
      then (ps ! i)\<lparr>outcome := Blocked\<rparr> else ps ! i)"
  by (simp add: resolve_one_def)

lemma resolve_one_settles: "settles ps (resolve_one pol w d cf ps)"
  by (simp add: settles_def resolve_one_nth)

lemma resolve_all_settles: "settles ps (resolve_all pol w k cfs ps)"
proof (induction cfs arbitrary: k ps)
  case Nil
  show ?case by (simp add: settles_refl)
next
  case (Cons cf cfs)
  show ?case
    using settles_trans [OF resolve_one_settles Cons.IH] by simp
qed

lemma resolve_all_length [simp]: "length (resolve_all pol w k cfs ps) = length ps"
  using resolve_all_settles [of ps pol w k cfs] by (simp add: settles_def)

lemma resolve_all_single:
  assumes "cf \<in> set cfs" and "i \<in> set (contenders cf)" and "j \<in> set (contenders cf)"
    and "i \<noteq> j" and "i < length ps" and "j < length ps"
  shows "outcome (resolve_all pol w k cfs ps ! i) \<noteq> Moved
         \<or> outcome (resolve_all pol w k cfs ps ! j) \<noteq> Moved"
  using assms
proof (induction cfs arbitrary: k ps)
  case Nil
  then show ?case by simp
next
  case (Cons c cfs)
  let ?qs = "resolve_one pol w (draw_number pol w k) c ps"
  show ?case
  proof (cases "cf = c")
    case True
    have "outcome (?qs ! i) = Blocked \<or> outcome (?qs ! j) = Blocked"
      using Cons.prems True by (auto simp: resolve_one_nth)
    moreover have "settles ?qs (resolve_all pol w (k + 1) cfs ?qs)"
      by (rule resolve_all_settles)
    ultimately show ?thesis
      using Cons.prems(5,6) by (auto simp: settles_def)
  next
    case False
    then have "cf \<in> set cfs" using Cons.prems(1) by simp
    from Cons.IH [OF this Cons.prems(2,3,4), of ?qs "k + 1"] Cons.prems(5,6)
    show ?thesis by simp
  qed
qed

lemma contested_covers:
  assumes "i < length ps" and "j < length ps" and "i \<noteq> j"
    and "outcome (ps ! i) = Moved" and "outcome (ps ! j) = Moved"
    and "target (ps ! i) = target (ps ! j)"
  shows "target (ps ! i) \<in> set (contested ps)"
    and "i \<in> set (contenders_for ps (target (ps ! i)))"
    and "j \<in> set (contenders_for ps (target (ps ! i)))"
proof -
  show i: "i \<in> set (contenders_for ps (target (ps ! i)))"
    using assms by (simp add: contenders_for_def)
  show j: "j \<in> set (contenders_for ps (target (ps ! i)))"
    using assms by (simp add: contenders_for_def)
  have "distinct (contenders_for ps (target (ps ! i)))"
    by (simp add: contenders_for_def)
  then have "card {i, j} \<le> length (contenders_for ps (target (ps ! i)))"
    using i j by (metis card_mono distinct_card List.finite_set empty_subsetI insert_subset)
  then have "2 \<le> length (contenders_for ps (target (ps ! i)))"
    using assms(3) by simp
  moreover have "target (ps ! i) \<in> set (map target (filter (\<lambda>p. outcome p = Moved) ps))"
    using assms(1,4) by (auto simp: in_set_conv_nth)
  ultimately show "target (ps ! i) \<in> set (contested ps)"
    by (simp add: contested_def)
qed

lemma resolve_all_no_clash:
  "no_clash (resolve_all pol w k
      (map (\<lambda>c. \<lparr>cell = c, contenders = contenders_for ps c\<rparr>) (contested ps)) ps)"
  unfolding no_clash_def
proof (intro allI impI)
  let ?cfs = "map (\<lambda>c. \<lparr>cell = c, contenders = contenders_for ps c\<rparr>) (contested ps)"
  let ?qs = "resolve_all pol w k ?cfs ps"
  fix i j
  assume i: "i < length ?qs" and j: "j < length ?qs" and ij: "i \<noteq> j"
    and mi: "outcome (?qs ! i) = Moved" and mj: "outcome (?qs ! j) = Moved"
  have st: "settles ps ?qs" by (rule resolve_all_settles)
  have i': "i < length ps" and j': "j < length ps" using i j by simp_all
  show "target (?qs ! i) \<noteq> target (?qs ! j)"
  proof
    assume "target (?qs ! i) = target (?qs ! j)"
    then have eq: "target (ps ! i) = target (ps ! j)"
      using st i' j' by (simp add: settles_def)
    have m: "outcome (ps ! i) = Moved" "outcome (ps ! j) = Moved"
      using st i' j' mi mj by (simp_all add: settles_def)
    note cov = contested_covers [OF i' j' ij m eq]
    let ?cf = "\<lparr>cell = target (ps ! i), contenders = contenders_for ps (target (ps ! i))\<rparr>"
    have "?cf \<in> set ?cfs" using cov(1) by auto
    from resolve_all_single [OF this _ _ ij i' j', of pol w k] cov(2,3) mi mj
    show False by simp
  qed
qed

subsection \<open>Applying the accepted moves\<close>

lemma accepted_moves_distinct:
  assumes "distinct (map position ps)" and "targets_free ps" and "no_clash ps"
  shows "distinct (map accepted_move ps)"
  unfolding distinct_conv_nth
proof (intro allI impI)
  fix i j
  assume i: "i < length (map accepted_move ps)" and j: "j < length (map accepted_move ps)"
    and ij: "i \<noteq> j"
  then have i': "i < length ps" and j': "j < length ps" by simp_all
  have pos: "position (ps ! i) \<noteq> position (ps ! j)"
    using assms(1) i' j' ij by (simp add: distinct_conv_nth)
  have ti: "target (ps ! i) = position (ps ! i) \<or> target (ps ! i) \<noteq> position (ps ! j)"
    using assms(2) i' j' by (auto simp: targets_free_def)
  have tj: "target (ps ! j) = position (ps ! j) \<or> target (ps ! j) \<noteq> position (ps ! i)"
    using assms(2) i' j' by (auto simp: targets_free_def)
  have cl: "outcome (ps ! i) = Moved \<Longrightarrow> outcome (ps ! j) = Moved
      \<Longrightarrow> target (ps ! i) \<noteq> target (ps ! j)"
    using assms(3) i' j' ij by (simp add: no_clash_def)
  show "map accepted_move ps ! i \<noteq> map accepted_move ps ! j"
    using pos ti tj cl i' j' by (auto simp: accepted_move_def)
qed

lemma apply_movement_one_per_cell:
  assumes "distinct (map position (pedestrians w))" and "targets_free (pedestrians w)"
    and "no_clash (pedestrians w)"
  shows "one_per_cell (apply_movement w)"
proof -
  have "map position (map (\<lambda>p. p\<lparr>position := accepted_move p\<rparr>) (pedestrians w))
      = map accepted_move (pedestrians w)"
    by (simp add: o_def)
  then have "distinct (map position (map (\<lambda>p. p\<lparr>position := accepted_move p\<rparr>) (pedestrians w)))"
    using accepted_moves_distinct [OF assms] by (simp only:)
  then show ?thesis
    unfolding one_per_cell_def apply_movement_def
    by (simp add: distinct_map_filter)
qed

subsection \<open>A timestep of the automaton under the driver\<close>

lemma automaton_ext_simps [simp]:
  "evaluate_pedestrians_movements (automaton_ext pol l c) = evaluate_movements pol"
  "determine_pedestrians_in_panic (automaton_ext pol l c) = determine_panic pol"
  "block_X_movement (automaton_ext pol l c) = block_lateral"
  "identify_pedestrian_conflicts (automaton_ext pol l c) = identify_conflicts pol"
  "solve_pedestrian_conflicts (automaton_ext pol l c) = solve_conflicts pol"
  "apply_pedestrian_movement (automaton_ext pol l c) = apply_movement"
  "update_pedestrian_position_grid (automaton_ext pol l c) = update_grids"
  "reset_pedestrian_state (automaton_ext pol l c) = reset_state"
  "reset_pedestrian_panic (automaton_ext pol l c) = reset_panic pol"
  "is_environment_empty (automaton_ext pol l c) = (\<lambda>w. pedestrians w = [])"
  by (simp_all add: automaton_ext_def)

lemma identify_conflicts_facts:
  "pedestrians (snd (identify_conflicts pol w)) = pedestrians w"
  "environment (snd (identify_conflicts pol w)) = environment w"
  "fst (identify_conflicts pol w) \<noteq> FAILURE \<Longrightarrow>
     conflicts (snd (identify_conflicts pol w)) =
       map (\<lambda>c. \<lparr>cell = c, contenders = contenders_for (pedestrians w) c\<rparr>)
         (contested (pedestrians w))"
  by (simp_all add: identify_conflicts_def Let_def split: if_splits)

lemma solve_conflicts_facts:
  "fst (solve_conflicts pol w) = SUCCESS"
  "pedestrians (snd (solve_conflicts pol w)) =
     resolve_all pol w (drawn w) (conflicts w) (pedestrians w)"
  "environment (snd (solve_conflicts pol w)) = environment w"
  by (simp_all add: solve_conflicts_def)

lemma proposals_facts:
  assumes "w3 = (if skip then id else block_lateral) (determine_panic pol (evaluate_movements pol w))"
  shows "map position (pedestrians w3) = map position (pedestrians w)"
    and "targets_free (pedestrians w3)"
proof -
  let ?w1 = "evaluate_movements pol w"
  let ?w2 = "determine_panic pol ?w1"
  have s12: "settles (pedestrians ?w1) (pedestrians ?w2)"
    by (rule determine_panic_settles)
  have s23: "settles (pedestrians ?w2) (pedestrians w3)"
    using block_lateral_settles(1) [of ?w2] by (simp add: assms settles_refl)
  have s13: "settles (pedestrians ?w1) (pedestrians w3)"
    by (rule settles_trans [OF s12 s23])
  show "map position (pedestrians w3) = map position (pedestrians w)"
    using settles_positions [OF s13] evaluate_movements_facts(1) [of pol w] by simp
  show "targets_free (pedestrians w3)"
    by (rule settles_targets_free [OF s13 evaluate_movements_facts(2)])
qed

lemma resolved_one_per_cell:
  assumes "one_per_cell w"
    and "w3 = (if skip then id else block_lateral) (determine_panic pol (evaluate_movements pol w))"
    and "fst (identify_conflicts pol w3) \<noteq> FAILURE"
  shows "one_per_cell (apply_movement (snd (solve_conflicts pol (snd (identify_conflicts pol w3)))))"
proof -
  let ?w4 = "snd (identify_conflicts pol w3)"
  let ?w5 = "snd (solve_conflicts pol ?w4)"
  let ?cfs = "map (\<lambda>c. \<lparr>cell = c, contenders = contenders_for (pedestrians w3) c\<rparr>)
                (contested (pedestrians w3))"
  have p5: "pedestrians ?w5 = resolve_all pol ?w4 (drawn ?w4) ?cfs (pedestrians w3)"
    using assms(3) by (simp add: solve_conflicts_facts identify_conflicts_facts)
  have st: "settles (pedestrians w3) (pedestrians ?w5)"
    unfolding p5 by (rule resolve_all_settles)
  have "distinct (map position (pedestrians ?w5))"
    using settles_positions [OF st] proposals_facts(1) [OF assms(2)] assms(1)
    by (simp add: one_per_cell_def)
  moreover have "targets_free (pedestrians ?w5)"
    by (rule settles_targets_free [OF st proposals_facts(2) [OF assms(2)]])
  moreover have "no_clash (pedestrians ?w5)"
    unfolding p5 by (rule resolve_all_no_clash)
  ultimately show ?thesis
    by (rule apply_movement_one_per_cell)
qed

lemma positions_kept:
  "map position (pedestrians (update_grids w)) = map position (pedestrians w)"
  "map position (pedestrians (reset_state w)) = map position (pedestrians w)"
  "map position (pedestrians (reset_panic pol w)) = map position (pedestrians w)"
  by (simp_all add: update_grids_def reset_state_def reset_panic_def o_def)

lemma one_per_cell_kept:
  "one_per_cell (reset_panic pol (reset_state (update_grids w))) = one_per_cell w"
  by (simp add: one_per_cell_def positions_kept)

lemma conflict_solving_failure_world:
  assumes "fst (conflict_solving (automaton_ext pol l c) s) = FAILURE"
  shows "pedestrians (world (snd (conflict_solving (automaton_ext pol l c) s)))
           = pedestrians (world s)"
  using assms
  by (simp add: conflict_solving_def case_prod_unfold call_status_simps
      identify_conflicts_facts solve_conflicts_facts split: if_splits)

text \<open>
  C2. If no two pedestrians share a cell when a timestep begins, then no two share a
  cell after the apply-movement phase of that timestep, none do when the timestep ends
  (also when conflict solving failed and nobody moved), and none do when the loop over
  timesteps returns: the invariant holds before and after every timestep of a run.
\<close>

theorem one_pedestrian_per_cell:
  assumes "one_per_cell (world s)"
  shows "(fst (timestep (automaton_ext pol l c) i n s) \<noteq> FAILURE \<longrightarrow>
            one_per_cell (apply_movement (world (snd (conflict_solving (automaton_ext pol l c)
              (timestep_proposals (automaton_ext pol l c) n s))))))
         \<and> one_per_cell (world (snd (timestep (automaton_ext pol l c) i n s)))
         \<and> (simulation_loop (automaton_ext pol l c) i n s = Some r \<longrightarrow>
              one_per_cell (world (snd (snd r))))"
proof -
  let ?ext = "automaton_ext pol l c"
  have step: "one_per_cell (world (snd (timestep ?ext i n s)))
      \<and> (fst (timestep ?ext i n s) \<noteq> FAILURE \<longrightarrow>
            one_per_cell (apply_movement (world (snd (conflict_solving ?ext
              (timestep_proposals ?ext n s))))))"
    if inv: "one_per_cell (world s)" for i n and s :: "automaton state"
  proof -
    let ?p = "timestep_proposals ?ext n s"
    define w3 where "w3 = world ?p"
    have w3: "w3 = (if allow_X_movement (cli_args s) then id else block_lateral)
        (determine_panic pol (evaluate_movements pol (world s)))"
      by (simp add: w3_def timestep_proposals_simps)
    show ?thesis
    proof (cases "fst (conflict_solving ?ext ?p) = FAILURE")
      case True
      then have "snd (timestep ?ext i n s) = snd (conflict_solving ?ext ?p)"
        "fst (timestep ?ext i n s) = FAILURE"
        by (simp_all add: timestep_def case_prod_unfold)
      moreover have "map position (pedestrians (world (snd (conflict_solving ?ext ?p))))
          = map position (pedestrians (world s))"
        using conflict_solving_failure_world [OF True] proposals_facts(1) [OF w3]
        by (simp add: w3_def)
      ultimately show ?thesis using inv by (simp add: one_per_cell_def)
    next
      case False
      note cs = conflict_solving_success [OF False]
      have w5: "world (snd (conflict_solving ?ext ?p))
          = snd (solve_conflicts pol (snd (identify_conflicts pol w3)))"
        using cs(4) by (simp add: w3_def)
      have "fst (identify_conflicts pol w3) \<noteq> FAILURE"
        using cs(1) by (simp add: w3_def)
      from resolved_one_per_cell [OF inv w3 this]
      have a: "one_per_cell (apply_movement (world (snd (conflict_solving ?ext ?p))))"
        by (simp add: w5)
      have "snd (timestep ?ext i n s) = timestep_commit ?ext i n (snd (conflict_solving ?ext ?p))"
        using False by (simp add: timestep_def case_prod_unfold)
      then have "one_per_cell (world (snd (timestep ?ext i n s)))"
        using a by (simp add: timestep_commit_simps one_per_cell_kept)
      then show ?thesis using a by simp
    qed
  qed
  have loop: "one_per_cell (world (snd (snd r)))"
    if run: "simulation_loop ?ext i n s = Some r" and inv: "one_per_cell (world s)"
  proof -
    have "ext = ?ext \<longrightarrow> one_per_cell (world s) \<longrightarrow> one_per_cell (world (snd (snd r)))"
      if "simulation_loop ext i n s = Some r" for ext
    proof (rule simulation_loop.raw_induct
        [where P = "\<lambda>ext i n s r. ext = ?ext \<longrightarrow> one_per_cell (world s)
                      \<longrightarrow> one_per_cell (world (snd (snd r)))", OF _ that])
      fix loop :: "automaton External \<Rightarrow> int \<Rightarrow> int \<Rightarrow> automaton state
        \<Rightarrow> (Function_Status \<times> int \<times> automaton state) option"
      fix ext i n s r
      assume IH: "\<And>ext i n s r. loop ext i n s = Some r \<Longrightarrow>
         ext = ?ext \<longrightarrow> one_per_cell (world s) \<longrightarrow> one_per_cell (world (snd (snd r)))"
      assume body: "(if is_environment_empty ext (world s) then Some (SUCCESS, n, s)
          else case timestep ext i n s of
               (st, s1) \<Rightarrow> if st = FAILURE then Some (FAILURE, n, s1) else loop ext i (int_increment n) s1)
          = Some r"
      show "ext = ?ext \<longrightarrow> one_per_cell (world s) \<longrightarrow> one_per_cell (world (snd (snd r)))"
      proof (intro impI)
        assume e: "ext = ?ext" and inv: "one_per_cell (world s)"
        have next_inv: "one_per_cell (world (snd (timestep ext i n s)))"
          using step [OF inv, of i n] e by simp
        show "one_per_cell (world (snd (snd r)))"
        proof (cases "is_environment_empty ext (world s)")
          case True
          then show ?thesis using body inv by auto
        next
          case ne: False
          show ?thesis
          proof (cases "fst (timestep ext i n s) = FAILURE")
            case True
            then show ?thesis using body ne next_inv by (auto simp: case_prod_unfold)
          next
            case False
            then have "loop ext i (int_increment n) (snd (timestep ext i n s)) = Some r"
              using body ne by (simp add: case_prod_unfold)
            from IH [OF this] e next_inv show ?thesis by simp
          qed
        qed
      qed
    qed
    then show ?thesis using run inv by simp
  qed
  show ?thesis
    using step [OF assms, of i n] loop assms by blast
qed

theorem one_pedestrian_per_cell_witness:
  "one_per_cell junction
   \<and> map position (pedestrians (world (snd (timestep (automaton_ext corridor_policies 2 3) 0 0
          (inside junction))))) = [(0, 2), (0, 1)]
   \<and> one_per_cell (world (snd (timestep (automaton_ext corridor_policies 2 3) 0 0
          (inside junction))))"
proof -
  have h: "one_per_cell (world (inside junction))"
    by code_simp
  have p: "map position (pedestrians (world (snd (timestep (automaton_ext corridor_policies 2 3) 0 0
          (inside junction))))) = [(0, 2), (0, 1)]"
    by code_simp
  from one_pedestrian_per_cell [OF h, of corridor_policies 2 3 0 0]
  have "one_per_cell (world (snd (timestep (automaton_ext corridor_policies 2 3) 0 0
          (inside junction))))"
    by blast
  then show ?thesis using h p by (simp add: inside_def)
qed

subsection \<open>Resolving the conflicts\<close>

lemma pick_from_less: "ws \<noteq> [] \<Longrightarrow> pick_from ws r < length ws"
  by (induction ws r rule: pick_from.induct) simp_all

lemma weighted_draw_less: "ws \<noteq> [] \<Longrightarrow> weighted_draw ws d < length ws"
  by (simp add: weighted_draw_def pick_from_less)

lemma winner_in: "contenders cf \<noteq> [] \<Longrightarrow> winner pol w d cf ps \<in> set (contenders cf)"
  unfolding winner_def
  by (rule nth_mem) (use weighted_draw_less [of "map _ (contenders cf)"] in simp)

lemma resolve_all_append:
  "resolve_all pol w k (a @ b) ps
     = resolve_all pol w (k + length a) b (resolve_all pol w k a ps)"
  by (induction a arbitrary: k ps) simp_all

lemma resolve_all_untouched:
  "i < length ps \<Longrightarrow> (\<forall>cf \<in> set cfs. i \<notin> set (contenders cf))
   \<Longrightarrow> resolve_all pol w k cfs ps ! i = ps ! i"
  by (induction cfs arbitrary: k ps) (simp_all add: resolve_one_nth)

lemma contenders_for_facts:
  "i \<in> set (contenders_for ps c) \<Longrightarrow>
     i < length ps \<and> outcome (ps ! i) = Moved \<and> target (ps ! i) = c"
  by (simp add: contenders_for_def)

lemma contested_distinct: "distinct (contested ps)"
  by (simp add: contested_def)

text \<open>
  C3. Every conflict identified in a timestep has at least two contenders. After
  \<^verbatim>\<open>solve_pedestrian_conflicts\<close> one of them, the winner, is free to move and its accepted
  move is the contested cell, its proposed target; every other contender is flagged
  blocked, its accepted move is to stay where it is, and its proposal is kept.
\<close>

theorem one_winner_per_conflict:
  assumes "identify_conflicts pol w = (SUCCESS, w1)" and "cf \<in> set (conflicts w1)"
  shows "2 \<le> length (contenders cf)
         \<and> (\<exists>win \<in> set (contenders cf).
               outcome (pedestrians (snd (solve_conflicts pol w1)) ! win) = Moved
               \<and> accepted_move (pedestrians (snd (solve_conflicts pol w1)) ! win) = cell cf
               \<and> (\<forall>i \<in> set (contenders cf). i \<noteq> win \<longrightarrow>
                     outcome (pedestrians (snd (solve_conflicts pol w1)) ! i) = Blocked
                     \<and> accepted_move (pedestrians (snd (solve_conflicts pol w1)) ! i)
                         = position (pedestrians w ! i)
                     \<and> target (pedestrians (snd (solve_conflicts pol w1)) ! i) = cell cf))"
proof -
  let ?ps = "pedestrians w"
  let ?mk = "\<lambda>c. \<lparr>cell = c, contenders = contenders_for ?ps c\<rparr>"
  let ?cfs = "map ?mk (contested ?ps)"
  have w1: "pedestrians w1 = ?ps" "conflicts w1 = ?cfs"
    using identify_conflicts_facts [of pol w] assms(1) by simp_all
  have cf: "cf = ?mk (cell cf)" "cell cf \<in> set (contested ?ps)"
    using assms(2) w1(2) by auto
  have con: "contenders cf = contenders_for ?ps (cell cf)"
    by (subst cf(1)) simp
  have two: "2 \<le> length (contenders cf)"
    using cf(2) con by (simp add: contested_def)
  then have ne: "contenders cf \<noteq> []" by auto
  obtain pre post where split: "?cfs = pre @ cf # post"
    using assms(2) w1(2) by (metis split_list)
  have "distinct (map cell ?cfs)"
    by (simp add: o_def contested_distinct)
  then have "cell cf \<notin> cell ` set pre" "cell cf \<notin> cell ` set post"
    unfolding split by auto
  then have other: "cell c \<noteq> cell cf" if "c \<in> set pre \<union> set post" for c
    using that by (metis Un_iff imageI)
  have mk: "contenders c = contenders_for ?ps (cell c)" if "c \<in> set pre \<union> set post" for c
  proof -
    have "c \<in> set ?cfs" using that unfolding split by auto
    then show ?thesis by auto
  qed
  have apart: "i \<notin> set (contenders c)"
    if "i \<in> set (contenders cf)" "c \<in> set pre \<union> set post" for i c
    using contenders_for_facts [of i ?ps "cell cf"] contenders_for_facts [of i ?ps "cell c"]
      that other [OF that(2)] mk [OF that(2)] con by auto
  define k where "k = drawn w1"
  define ps1 where "ps1 = resolve_all pol w1 k pre ?ps"
  define d where "d = draw_number pol w1 (k + length pre)"
  define ps2 where "ps2 = resolve_one pol w1 d cf ps1"
  define qs where "qs = pedestrians (snd (solve_conflicts pol w1))"
  have qs: "qs = resolve_all pol w1 (k + length pre + 1) post ps2"
    by (simp add: qs_def solve_conflicts_facts w1 split resolve_all_append
        ps2_def ps1_def d_def k_def)
  have len: "length ps1 = length ?ps" "length ps2 = length ?ps"
    by (simp_all add: ps1_def ps2_def)
  have in_range: "i < length ?ps" if "i \<in> set (contenders cf)" for i
    using contenders_for_facts [of i ?ps "cell cf"] that con by simp
  have before: "ps1 ! i = ?ps ! i" if "i \<in> set (contenders cf)" for i
    unfolding ps1_def using in_range [OF that] apart [OF that]
    by (intro resolve_all_untouched) auto
  have after: "qs ! i = ps2 ! i" if "i \<in> set (contenders cf)" for i
    unfolding qs using in_range [OF that] apart [OF that] len
    by (intro resolve_all_untouched) auto
  define win where "win = winner pol w1 d cf ps1"
  have win: "win \<in> set (contenders cf)"
    unfolding win_def by (rule winner_in [OF ne])
  have "qs ! win = ?ps ! win"
    using after [OF win] before [OF win] in_range [OF win] len
    by (simp add: ps2_def resolve_one_nth win_def)
  then have winner_moves: "outcome (qs ! win) = Moved" "accepted_move (qs ! win) = cell cf"
    using contenders_for_facts [of win ?ps "cell cf"] win con
    by (simp_all add: accepted_move_def)
  have losers: "outcome (qs ! i) = Blocked \<and> accepted_move (qs ! i) = position (?ps ! i)
      \<and> target (qs ! i) = cell cf"
    if "i \<in> set (contenders cf)" "i \<noteq> win" for i
  proof -
    have "qs ! i = (?ps ! i)\<lparr>outcome := Blocked\<rparr>"
      using after [OF that(1)] before [OF that(1)] in_range [OF that(1)] len that
      by (simp add: ps2_def resolve_one_nth win_def)
    then show ?thesis
      using contenders_for_facts [of i ?ps "cell cf"] that(1) con
      by (simp add: accepted_move_def)
  qed
  show ?thesis
    using two win winner_moves losers unfolding qs_def by blast
qed

subsection \<open>Panic\<close>


theorem one_winner_per_conflict_witness:
  "fst (identify_conflicts corridor_policies (proposed junction)) = SUCCESS
   \<and> conflicts (snd (identify_conflicts corridor_policies (proposed junction)))
       = [\<lparr>cell = (0, 1), contenders = [0, 1]\<rparr>]
   \<and> map outcome (pedestrians (snd (solve_conflicts corridor_policies
         (snd (identify_conflicts corridor_policies (proposed junction))))))
       = [Blocked, Moved]
   \<and> (\<exists>win \<in> {0, 1}.
         accepted_move (pedestrians (snd (solve_conflicts corridor_policies
           (snd (identify_conflicts corridor_policies (proposed junction))))) ! win) = (0, 1))"
proof -
  define w1 where "w1 = snd (identify_conflicts corridor_policies (proposed junction))"
  have st: "fst (identify_conflicts corridor_policies (proposed junction)) = SUCCESS"
    by code_simp
  then have 1: "identify_conflicts corridor_policies (proposed junction) = (SUCCESS, w1)"
    by (simp add: w1_def prod_eq_iff)
  have cs: "conflicts (snd (identify_conflicts corridor_policies (proposed junction)))
       = [\<lparr>cell = (0, 1), contenders = [0, 1]\<rparr>]"
    by code_simp
  then have 2: "\<lparr>cell = (0, 1), contenders = [0, 1]\<rparr> \<in> set (conflicts w1)"
    by (simp add: w1_def)
  have oc: "map outcome (pedestrians (snd (solve_conflicts corridor_policies
         (snd (identify_conflicts corridor_policies (proposed junction))))))
       = [Blocked, Moved]"
    by code_simp
  from one_winner_per_conflict [OF 1 2]
  have "\<exists>win \<in> {0, 1}. accepted_move (pedestrians (snd (solve_conflicts corridor_policies w1)) ! win)
      = (0, 1)"
    by auto
  then show ?thesis using st cs oc by (simp add: w1_def)
qed

subsection \<open>Seeding makes the runs of a set reproducible\<close>























lemma automaton_ext_run_simps [simp]:
  "srand (automaton_ext pol l c) sd = (\<lambda>w. w\<lparr>stream_seed := sd, drawn := 0\<rparr>)"
  "origin_uses_static_pedestrians (automaton_ext pol l c)"
  "reset_pedestrians_structures (automaton_ext pol l c) = place"
  "exits_set_num_exits (automaton_ext pol l c) = (\<lambda>w. num_exits (exits_set w))"
  by (simp_all add: automaton_ext_def)










text \<open>The loops are run on concrete memories by unfolding their equations.\<close>

declare run_loop.simps [code] simulation_loop.simps [code]


text \<open>
  The stream decides: in the junction the seed 7 lets the second pedestrian into the
  contested cell, the seed 8 the first.
\<close>

lemma another_seed_other_moves:
  "map accepted_move (pedestrians (world (snd (conflict_solving (automaton_ext calm_policies 2 3)
       (timestep_proposals (automaton_ext calm_policies 2 3) 0 (inside junction))))))
     = [(0, 2), (0, 1)]
   \<and> map accepted_move (pedestrians (world (snd (conflict_solving (automaton_ext calm_policies 2 3)
       (timestep_proposals (automaton_ext calm_policies 2 3) 0
          (inside (junction\<lparr>stream_seed := 8\<rparr>)))))))
     = [(0, 1), (1, 2)]"
  by code_simp

end
